theory Spec2Isabelle
  imports Complex_Main "HOL-Library.Log_Nat"
begin

section \<open>Image compressor: a model of script.js\<close>

text \<open>
  The script is a browser page controller: a change listener on a file input, an
  asynchronous per-image pipeline \<open>processImage\<close>, the compression routine
  \<open>compressImage\<close> with its seven-step quality search, and small helpers.

  JavaScript numbers are modelled as rationals. Every quality the search computes is a
  dyadic fraction with denominator at most 128 and is exact as a double; the byte budget
  \<open>file.size * 0.10\<close> is only ever compared with an integer byte count, and for the file
  sizes a browser hands over that comparison has the same outcome in exact arithmetic.
  The division and the multiplication of \<open>resizeDimensions\<close> do round, and are modelled
  with the rounding of binary64 (\<open>to_double\<close> below).

  Strings are lists of 8-bit characters; the script searches them for ASCII characters
  only (dot, slash, comma, colon, semicolon), and \<open>toUpperCase\<close> is modelled on ASCII
  letters.

  What the browser provides (image decoding, the canvas encoders, \<open>atob\<close>, object URLs)
  is a record of functions, the parameter \<open>env\<close> of the model.
\<close>

subsection \<open>Data\<close>

datatype error = LoadError | TypeError | InvalidCharacterError

record File =
  file_name :: string
  file_type :: string
  file_size :: nat

record image =
  img_src :: string
  img_width :: nat
  img_height :: nat

record blob =
  blob_data :: "nat list"
  blob_type :: string

definition blob_size :: "blob \<Rightarrow> nat" where
  "blob_size b = length (blob_data b)"

record dimensions =
  width :: rat
  height :: rat

datatype draw_op =
    FillRect string rat rat rat rat
  | DrawImage image rat rat rat rat

record canvas =
  canvas_width :: rat
  canvas_height :: rat
  canvas_ops :: "draw_op list"

datatype encode_call =
    ToBlob canvas string
  | ToDataURL canvas string "rat option"

record browser =
  createObjectURL :: "File \<Rightarrow> string"
  decode :: "File \<Rightarrow> (nat \<times> nat) option"
  toBlob :: "canvas \<Rightarrow> string \<Rightarrow> blob option"
  toDataURL :: "canvas \<Rightarrow> string \<Rightarrow> rat option \<Rightarrow> string"
  atob :: "string \<Rightarrow> string option"

text \<open>
  \<open>decode\<close> is the outcome of loading the object URL into an \<open>Image\<close>: the pixel size
  when \<open>onload\<close> fires, \<open>None\<close> when \<open>onerror\<close> fires. \<open>toBlob\<close> hands its callback a
  blob or \<open>null\<close>. \<open>atob\<close> is \<open>None\<close> where the browser raises InvalidCharacterError.
\<close>

subsection \<open>String primitives of the language\<close>

fun split_on :: "char \<Rightarrow> string \<Rightarrow> string list" where
  "split_on c [] = [[]]"
| "split_on c (x # xs) =
     (if x = c then [] # split_on c xs
      else (case split_on c xs of
              [] \<Rightarrow> [[x]]
            | p # ps \<Rightarrow> (x # p) # ps))"

definition startsWith :: "string \<Rightarrow> string \<Rightarrow> bool" where
  "startsWith s p = (take (length p) s = p)"

definition lastIndexOf :: "string \<Rightarrow> char \<Rightarrow> int" where
  "lastIndexOf s c =
     (if c \<in> set s
      then int (length s) - 1 - int (length (takeWhile (\<lambda>x. x \<noteq> c) (rev s)))
      else - 1)"

definition substring :: "string \<Rightarrow> int \<Rightarrow> int \<Rightarrow> string" where
  "substring s start end' =
     (let n = int (length s);
          a = max 0 (min start n);
          b = max 0 (min end' n);
          lo = min a b;
          hi = max a b
      in take (nat (hi - lo)) (drop (nat lo) s))"

definition upper_char :: "char \<Rightarrow> char" where
  "upper_char c =
     (case map_of (zip ''abcdefghijklmnopqrstuvwxyz'' ''ABCDEFGHIJKLMNOPQRSTUVWXYZ'') c of
        Some u \<Rightarrow> u
      | None \<Rightarrow> c)"

definition toUpperCase :: "string \<Rightarrow> string" where
  "toUpperCase s = map upper_char s"

text \<open>A value interpolated into a template literal; \<open>undefined\<close> prints as its name.\<close>

definition template_str :: "string option \<Rightarrow> string" where
  "template_str v = (case v of None \<Rightarrow> ''undefined'' | Some s \<Rightarrow> s)"

text \<open>\<open>arr[1]\<close> of a split: the second piece, \<open>undefined\<close> when there is none.\<close>

definition second_piece :: "string list \<Rightarrow> string option" where
  "second_piece arr = (case arr of _ # e # _ \<Rightarrow> Some e | _ \<Rightarrow> None)"

subsection \<open>Utility functions\<close>

text \<open>
  Binary64 arithmetic on the rationals. \<open>binade x\<close> is the exponent \<open>e\<close> with
  \<open>2^e \<le> x < 2^(e+1)\<close> of a positive \<open>x\<close>; \<open>to_double\<close> rounds to the nearest multiple of
  the spacing \<open>2^(e-52)\<close> of the doubles around \<open>x\<close> (\<open>2^(-1074)\<close> in the subnormal range),
  ties to the even multiple. A product or quotient of two doubles is the rounded exact
  result. Overflow to \<open>Infinity\<close>, \<open>NaN\<close> and the sign of zero are not represented.
\<close>

definition binade :: "rat \<Rightarrow> int" where
  "binade x =
     (case quotient_of x of
        (n, d) \<Rightarrow>
          (let c = bitlen n - bitlen d
           in if 2 powi c \<le> x then c else c - 1))"

definition round_half_even :: "rat \<Rightarrow> int" where
  "round_half_even y =
     (let f = \<lfloor>y\<rfloor>;
          r = y - of_int f
      in if r < 1 / 2 then f
         else if r > 1 / 2 then f + 1
         else if even f then f else f + 1)"

definition to_double :: "rat \<Rightarrow> rat" where
  "to_double x =
     (if x = 0 then 0
      else (let q = 2 powi (max (binade \<bar>x\<bar>) (- 1022) - 52)
            in of_int (round_half_even (x / q)) * q))"

definition dmul :: "rat \<Rightarrow> rat \<Rightarrow> rat" where
  "dmul x y = to_double (x * y)"

definition ddiv :: "rat \<Rightarrow> rat \<Rightarrow> rat" where
  "ddiv x y = to_double (x / y)"

definition resizeDimensions :: "rat \<Rightarrow> rat \<Rightarrow> rat \<Rightarrow> dimensions" where
  "resizeDimensions w h mx =
     (if w > mx \<or> h > mx then
        (if w > h then \<lparr>width = mx, height = dmul h (ddiv mx w)\<rparr>
         else \<lparr>width = dmul w (ddiv mx h), height = mx\<rparr>)
      else \<lparr>width = w, height = h\<rparr>)"

text \<open>
  \<open>changeFileExtension(filename, mimeType)\<close>. The second argument may be \<open>undefined\<close>
  (\<open>None\<close>), and then \<open>mimeType.split\<close> raises TypeError.
\<close>

definition changeFileExtension :: "string \<Rightarrow> string option \<Rightarrow> error + string" where
  "changeFileExtension filename mimeType =
     (case mimeType of
        None \<Rightarrow> Inl TypeError
      | Some m \<Rightarrow>
          (let ext = second_piece (split_on (CHR ''/'') m);
               baseName = substring filename 0 (lastIndexOf filename (CHR ''.''))
           in Inr (baseName @ ''.'' @ template_str ext)))"

text \<open>
  The regular expression \<open>/:(.*?);/\<close> on the head of a data URL: the leftmost colon from
  which a semicolon is reached without crossing a line terminator; the group is the text
  between the two.
\<close>

definition line_terminator :: "char \<Rightarrow> bool" where
  "line_terminator c = (c = CHR 0x0A \<or> c = CHR 0x0D)"

fun match_mime :: "string \<Rightarrow> string option" where
  "match_mime [] = None"
| "match_mime (c # cs) =
     (if c = CHR '':'' then
        (let g = takeWhile (\<lambda>x. x \<noteq> CHR '';'' \<and> \<not> line_terminator x) cs
         in case drop (length g) cs of
              [] \<Rightarrow> match_mime cs
            | d # _ \<Rightarrow> if d = CHR '';'' then Some g else match_mime cs)
      else match_mime cs)"

text \<open>
  The copying loop \<open>while (n--) u8arr[n] = bstr.charCodeAt(n)\<close>. The blob keeps the type
  as matched; the lower-casing that the \<open>Blob\<close> constructor applies is not represented.
\<close>

fun fill_u8 :: "string \<Rightarrow> nat \<Rightarrow> nat list \<Rightarrow> nat list" where
  "fill_u8 bstr 0 u8arr = u8arr"
| "fill_u8 bstr (Suc n) u8arr = fill_u8 bstr n (u8arr[n := of_char (bstr ! n)])"

definition dataURLtoBlob :: "browser \<Rightarrow> string \<Rightarrow> error + blob" where
  "dataURLtoBlob env dataurl =
     (let arr = split_on (CHR '','') dataurl
      in case match_mime (hd arr) of
           None \<Rightarrow> Inl TypeError
         | Some mime \<Rightarrow>
             (case atob env (template_str (second_piece arr)) of
                None \<Rightarrow> Inl InvalidCharacterError
              | Some bstr \<Rightarrow>
                  (let n = length bstr;
                       u8arr = fill_u8 bstr n (replicate n 0)
                   in Inr \<lparr>blob_data = u8arr, blob_type = mime\<rparr>)))"

subsection \<open>The compression routine\<close>

record best_result =
  best_blob :: "blob option"
  best_src :: string
  best_quality :: rat

record search_state =
  minQuality :: rat
  maxQuality :: rat
  bestResult :: best_result
  calls :: "encode_call list"

text \<open>
  The object \<open>compressImage\<close> returns. It has the properties \<open>blob\<close>, \<open>src\<close> and
  \<open>format\<close>, and \<open>quality\<close> on the search path only. The field \<open>calls\<close> of the
  search state, and the list returned beside the result, record the encoder invocations
  made on the canvas, in order.
\<close>

record compress_result =
  res_blob :: "blob option"
  res_src :: string
  res_quality :: "rat option"
  res_format :: string

definition MAX_DIMENSION :: rat where
  "MAX_DIMENSION = 1920"

text \<open>
  Canvas creation, sizing, the optional white fill and the drawing of the image. The
  canvas records the width and height the script assigns; the truncation to an integer
  that the element applies is left to the encoders of \<open>env\<close>.
\<close>

definition prepare_canvas :: "image \<Rightarrow> bool \<Rightarrow> canvas" where
  "prepare_canvas img isPngConversion =
     (let d = resizeDimensions (of_nat (img_width img)) (of_nat (img_height img)) MAX_DIMENSION;
          fill = (if isPngConversion then [FillRect ''#FFFFFF'' 0 0 (width d) (height d)] else [])
      in \<lparr>canvas_width = width d, canvas_height = height d,
          canvas_ops = fill @ [DrawImage img 0 0 (width d) (height d)]\<rparr>)"

text \<open>
  The label \<open>prefix + mimeType.split('/')[1].toUpperCase() + ')'\<close>; TypeError when the
  type has no second piece.
\<close>

definition format_label :: "string \<Rightarrow> string \<Rightarrow> error + string" where
  "format_label prefix mimeType =
     (case second_piece (split_on (CHR ''/'') mimeType) of
        None \<Rightarrow> Inl TypeError
      | Some e \<Rightarrow> Inr (prefix @ toUpperCase e @ '')''))"

text \<open>One encode at a quality: \<open>dataURLtoBlob(canvas.toDataURL(mimeType, quality))\<close>.\<close>

definition encode :: "browser \<Rightarrow> canvas \<Rightarrow> string \<Rightarrow> rat \<Rightarrow> error + blob" where
  "encode env cv mimeType quality = dataURLtoBlob env (toDataURL env cv mimeType (Some quality))"

text \<open>The body of the \<open>for\<close> loop.\<close>

definition search_iter ::
  "browser \<Rightarrow> canvas \<Rightarrow> string \<Rightarrow> rat \<Rightarrow> search_state \<Rightarrow> error + search_state" where
  "search_iter env cv mimeType targetSize s =
     (let quality = (minQuality s + maxQuality s) / 2;
          src = toDataURL env cv mimeType (Some quality);
          s1 = s\<lparr>calls := calls s @ [ToDataURL cv mimeType (Some quality)]\<rparr>
      in case dataURLtoBlob env src of
           Inl e \<Rightarrow> Inl e
         | Inr b \<Rightarrow>
             if of_nat (blob_size b) \<le> targetSize
             then Inr (s1\<lparr>bestResult := \<lparr>best_blob = Some b, best_src = src, best_quality = quality\<rparr>,
                          minQuality := quality\<rparr>)
             else Inr (s1\<lparr>maxQuality := quality\<rparr>))"

function search_loop ::
  "browser \<Rightarrow> canvas \<Rightarrow> string \<Rightarrow> rat \<Rightarrow> nat \<Rightarrow> search_state \<Rightarrow> error + search_state" where
  "search_loop env cv mimeType targetSize i s =
     (if i < 7 then
        (case search_iter env cv mimeType targetSize s of
           Inl e \<Rightarrow> Inl e
         | Inr s' \<Rightarrow> search_loop env cv mimeType targetSize (i + 1) s')
      else Inr s)"
  by pat_completeness auto
termination
  by (relation "measure (\<lambda>(env, cv, mimeType, targetSize, i, s). 7 - i)") auto

declare search_loop.simps [simp del]

definition initial_search :: search_state where
  "initial_search =
     \<lparr>minQuality = 0, maxQuality = 1,
      bestResult = \<lparr>best_blob = None, best_src = [], best_quality = 0\<rparr>,
      calls = []\<rparr>"

text \<open>The step after the loop: \<open>if (!bestResult.blob)\<close> encode once at 0.1.\<close>

definition fallback :: "browser \<Rightarrow> canvas \<Rightarrow> string \<Rightarrow> search_state \<Rightarrow> error + search_state" where
  "fallback env cv mimeType s =
     (case best_blob (bestResult s) of
        Some _ \<Rightarrow> Inr s
      | None \<Rightarrow>
          (let src = toDataURL env cv mimeType (Some (1 / 10))
           in case dataURLtoBlob env src of
                Inl e \<Rightarrow> Inl e
              | Inr b \<Rightarrow>
                  Inr (s\<lparr>bestResult := \<lparr>best_blob = Some b, best_src = src, best_quality = 1 / 10\<rparr>,
                         calls := calls s @ [ToDataURL cv mimeType (Some (1 / 10))]\<rparr>)))"

definition compressImage ::
  "browser \<Rightarrow> image \<Rightarrow> string \<Rightarrow> rat \<Rightarrow> bool \<Rightarrow> error + (compress_result \<times> encode_call list)" where
  "compressImage env img mimeType targetSize isPngConversion =
     (let cv = prepare_canvas img isPngConversion
      in if mimeType \<noteq> ''image/jpeg'' \<and> mimeType \<noteq> ''image/webp'' then
           (let b = toBlob env cv mimeType;
                src = toDataURL env cv mimeType None
            in case format_label ''(Resized as '' mimeType of
                 Inl e \<Rightarrow> Inl e
               | Inr fmt \<Rightarrow>
                   Inr (\<lparr>res_blob = b, res_src = src, res_quality = None, res_format = fmt\<rparr>,
                        [ToBlob cv mimeType, ToDataURL cv mimeType None]))
         else
           (case search_loop env cv mimeType targetSize 0 initial_search of
              Inl e \<Rightarrow> Inl e
            | Inr s \<Rightarrow>
                (case fallback env cv mimeType s of
                   Inl e \<Rightarrow> Inl e
                 | Inr s' \<Rightarrow>
                     (case format_label ''(as '' mimeType of
                        Inl e \<Rightarrow> Inl e
                      | Inr fmt \<Rightarrow>
                          Inr (\<lparr>res_blob = best_blob (bestResult s'),
                                res_src = best_src (bestResult s'),
                                res_quality = Some (best_quality (bestResult s')),
                                res_format = fmt\<rparr>,
                               calls s')))))"

subsection \<open>The page: shared state, pipeline, completion, selection\<close>

record preview_card =
  card_original_src :: string
  card_original_name :: string
  card_original_size :: nat
  card_format :: string
  card_compressed_src :: string
  card_compressed_size :: nat
  card_download :: string

record zip_entry =
  entry_name :: string
  entry_blob :: "blob option"

record page =
  previewsContainer :: "preview_card list"
  compressedFilesForZip :: "zip_entry list"
  filesToProcess :: nat
  filesProcessed :: nat
  downloadAllBtn_display :: string

definition checkCompletion :: "page \<Rightarrow> page" where
  "checkCompletion st =
     (let st1 = st\<lparr>filesProcessed := filesProcessed st + 1\<rparr>
      in if filesProcessed st1 = filesToProcess st1 \<and> length (compressedFilesForZip st1) > 0
         then st1\<lparr>downloadAllBtn_display := ''block''\<rparr>
         else st1)"

text \<open>
  The card is kept as the values its template is built from. Reading \<open>blob.type\<close> of a
  \<open>null\<close> blob raises TypeError before anything is appended.
\<close>

definition displayPreviewCard ::
  "File \<Rightarrow> string \<Rightarrow> compress_result \<Rightarrow> page \<Rightarrow> error + page" where
  "displayPreviewCard originalFile originalSrc compressedResult st =
     (case res_blob compressedResult of
        None \<Rightarrow> Inl TypeError
      | Some b \<Rightarrow>
          (case changeFileExtension (file_name originalFile) (Some (blob_type b)) of
             Inl e \<Rightarrow> Inl e
           | Inr downloadFileName \<Rightarrow>
               Inr (st\<lparr>previewsContainer := previewsContainer st @
                     [\<lparr>card_original_src = originalSrc,
                       card_original_name = file_name originalFile,
                       card_original_size = file_size originalFile,
                       card_format = res_format compressedResult,
                       card_compressed_src = res_src compressedResult,
                       card_compressed_size = blob_size b,
                       card_download = ''compressed_'' @ downloadFileName\<rparr>]\<rparr>)))"

text \<open>
  \<open>result.mimeType\<close>: neither object literal that \<open>compressImage\<close> builds has a property
  of that name, so the read yields \<open>undefined\<close>.
\<close>

definition result_mimeType :: "compress_result \<Rightarrow> string option" where
  "result_mimeType r = None"

text \<open>The choice of output type, budget and flattening, and the call it leads to.\<close>

definition processImage_compress ::
  "browser \<Rightarrow> File \<Rightarrow> image \<Rightarrow> error + (compress_result \<times> encode_call list)" where
  "processImage_compress env file img =
     (let targetSize = of_nat (file_size file) * (1 / 10)
      in if file_type file = ''image/png''
         then compressImage env img ''image/jpeg'' targetSize True
         else compressImage env img (file_type file) targetSize False)"

text \<open>
  One pipeline. It touches the shared state only in its last synchronous stretch (the
  card, the push, \<open>checkCompletion\<close>), so it is a function from the state at that moment to
  the state after it, with the settlement of its promise beside it: \<open>Inl\<close> is a rejection.
\<close>

definition processImage :: "browser \<Rightarrow> File \<Rightarrow> page \<Rightarrow> (error + unit) \<times> page" where
  "processImage env file st =
     (let originalSrc = createObjectURL env file
      in case decode env file of
           None \<Rightarrow> (Inl LoadError, st)
         | Some (w, h) \<Rightarrow>
             (let img = \<lparr>img_src = originalSrc, img_width = w, img_height = h\<rparr>
              in case processImage_compress env file img of
                   Inl e \<Rightarrow> (Inl e, st)
                 | Inr (result, made) \<Rightarrow>
                     (case displayPreviewCard file originalSrc result st of
                        Inl e \<Rightarrow> (Inl e, st)
                      | Inr st1 \<Rightarrow>
                          (case changeFileExtension (file_name file) (result_mimeType result) of
                             Inl e \<Rightarrow> (Inl e, st1)
                           | Inr name \<Rightarrow>
                               (Inr (),
                                checkCompletion
                                  (st1\<lparr>compressedFilesForZip := compressedFilesForZip st1 @
                                     [\<lparr>entry_name = name, entry_blob = res_blob result\<rparr>]\<rparr>))))))"

text \<open>
  The change listener. It returns the new state and the files whose pipelines it starts;
  it awaits none of them. \<open>None\<close> is a missing file list.
\<close>

definition imageInput_change :: "File list option \<Rightarrow> page \<Rightarrow> page \<times> File list" where
  "imageInput_change files st =
     (case files of
        None \<Rightarrow> (st, [])
      | Some fs \<Rightarrow>
          if length fs = 0 then (st, [])
          else
            (let st1 = st\<lparr>previewsContainer := [], compressedFilesForZip := [],
                         downloadAllBtn_display := ''none''\<rparr>;
                 imageFiles = filter (\<lambda>f. startsWith (file_type f) ''image/'') fs;
                 st2 = st1\<lparr>filesToProcess := length imageFiles, filesProcessed := 0\<rparr>
             in if filesToProcess st2 = 0 then (st2, []) else (st2, imageFiles)))"

text \<open>
  The started pipelines settle one at a time, in some order \<open>fs\<close>; nobody observes a
  rejection, so the next one simply runs on the state the previous one left.
\<close>

definition settle_all :: "browser \<Rightarrow> File list \<Rightarrow> page \<Rightarrow> page" where
  "settle_all env fs st = foldl (\<lambda>s f. snd (processImage env f s)) st fs"

subsection \<open>Notions used in the properties\<close>

text \<open>
  An encode at quality \<open>q\<close> fits the budget when it succeeds with at most \<open>targetSize\<close>
  bytes: the test \<open>blob.size <= targetSize\<close> of the loop.
\<close>

definition fits :: "browser \<Rightarrow> canvas \<Rightarrow> string \<Rightarrow> rat \<Rightarrow> rat \<Rightarrow> bool" where
  "fits env cv mimeType targetSize q =
     (case encode env cv mimeType q of
        Inl _ \<Rightarrow> False
      | Inr b \<Rightarrow> of_nat (blob_size b) \<le> targetSize)"

fun call_quality :: "encode_call \<Rightarrow> rat option" where
  "call_quality (ToBlob cv m) = None"
| "call_quality (ToDataURL cv m q) = q"

fun call_canvas :: "encode_call \<Rightarrow> canvas" where
  "call_canvas (ToBlob cv m) = cv"
| "call_canvas (ToDataURL cv m q) = cv"

fun call_mime :: "encode_call \<Rightarrow> string" where
  "call_mime (ToBlob cv m) = m"
| "call_mime (ToDataURL cv m q) = m"

text \<open>The qualities the seven iterations of the loop encode at, in order.\<close>

definition tested_qualities :: "browser \<Rightarrow> canvas \<Rightarrow> string \<Rightarrow> rat \<Rightarrow> rat list" where
  "tested_qualities env cv mimeType targetSize =
     (case search_loop env cv mimeType targetSize 0 initial_search of
        Inl _ \<Rightarrow> []
      | Inr s \<Rightarrow> List.map_filter call_quality (calls s))"

text \<open>
  The search as the specification words it, for comparison with the loop of the source:
  a state \<open>(low, high, best)\<close>, one iteration that bisects, and \<open>n\<close> iterations from
  \<open>(0, 1, None)\<close>. Here \<open>enc\<close> is the encoder as a total function of the quality.
\<close>

type_synonym spec_state = "rat \<times> rat \<times> (blob \<times> rat) option"

definition spec_mid :: "spec_state \<Rightarrow> rat" where
  "spec_mid st = (case st of (low, high, best) \<Rightarrow> (low + high) / 2)"

definition spec_iteration :: "(rat \<Rightarrow> blob) \<Rightarrow> rat \<Rightarrow> spec_state \<Rightarrow> spec_state" where
  "spec_iteration enc budget st =
     (case st of (low, high, best) \<Rightarrow>
        (let mid = (low + high) / 2;
             bytes = enc mid
         in if of_nat (blob_size bytes) \<le> budget
            then (mid, high, Some (bytes, mid))
            else (low, mid, best)))"

definition spec_search :: "(rat \<Rightarrow> blob) \<Rightarrow> rat \<Rightarrow> nat \<Rightarrow> spec_state" where
  "spec_search enc budget n = (spec_iteration enc budget ^^ n) (0, 1, None)"

text \<open>What the loop state of the source holds of such a state, and the encoder of \<open>env\<close>.\<close>

definition abs_state :: "search_state \<Rightarrow> spec_state" where
  "abs_state s =
     (minQuality s, maxQuality s,
      (case best_blob (bestResult s) of
         None \<Rightarrow> None
       | Some b \<Rightarrow> Some (b, best_quality (bestResult s))))"

definition encoded :: "browser \<Rightarrow> canvas \<Rightarrow> string \<Rightarrow> rat \<Rightarrow> blob" where
  "encoded env cv mimeType q =
     (case encode env cv mimeType q of
        Inl _ \<Rightarrow> \<lparr>blob_data = [], blob_type = []\<rparr>
      | Inr b \<Rightarrow> b)"

text \<open>The invariant of the loop.\<close>

definition search_inv :: "browser \<Rightarrow> canvas \<Rightarrow> string \<Rightarrow> rat \<Rightarrow> search_state \<Rightarrow> bool" where
  "search_inv env cv mimeType targetSize s =
     (minQuality s < maxQuality s
      \<and> best_quality (bestResult s) = minQuality s
      \<and> (\<forall>c \<in> set (calls s). \<exists>q. c = ToDataURL cv mimeType (Some q))
      \<and> (\<forall>q. ToDataURL cv mimeType (Some q) \<in> set (calls s)
            \<longrightarrow> fits env cv mimeType targetSize q \<longrightarrow> q \<le> minQuality s)
      \<and> (case best_blob (bestResult s) of
            None \<Rightarrow> (\<forall>q. ToDataURL cv mimeType (Some q) \<in> set (calls s)
                        \<longrightarrow> \<not> fits env cv mimeType targetSize q)
          | Some b \<Rightarrow>
              ToDataURL cv mimeType (Some (minQuality s)) \<in> set (calls s)
              \<and> encode env cv mimeType (minQuality s) = Inr b
              \<and> of_nat (blob_size b) \<le> targetSize
              \<and> best_src (bestResult s) = toDataURL env cv mimeType (Some (minQuality s))))"

text \<open>
  A pipeline that fails in decoding or encoding: the image does not load, or an encoder
  call raises, or the encoder hands back no blob.
\<close>

definition decode_or_encode_fails :: "browser \<Rightarrow> File \<Rightarrow> bool" where
  "decode_or_encode_fails env f =
     (case decode env f of
        None \<Rightarrow> True
      | Some (w, h) \<Rightarrow>
          (case processImage_compress env f
                  \<lparr>img_src = createObjectURL env f, img_width = w, img_height = h\<rparr> of
             Inl _ \<Rightarrow> True
           | Inr (r, made) \<Rightarrow> res_blob r = None))"

subsection \<open>Concrete inputs\<close>

text \<open>
  A small browser for evaluating the model. Its encoder emits a data URL whose payload is a
  run of the group \<open>AAAA\<close>, longer at higher quality; each group is three zero bytes in
  base64, and \<open>atob\<close> decodes exactly such payloads. Images decode to 3000 by 2000
  pixels, except that an empty file does not decode.
\<close>

definition demo_payload :: "rat option \<Rightarrow> nat" where
  "demo_payload q =
     (case q of
        None \<Rightarrow> 9
      | Some r \<Rightarrow> if r \<le> 1 / 4 then 1 else if r \<le> 1 / 2 then 5 else 20)"

definition demo_browser :: browser where
  "demo_browser =
     \<lparr>createObjectURL = (\<lambda>f. ''blob:'' @ file_name f),
      decode = (\<lambda>f. if file_size f = 0 then None else Some (3000, 2000)),
      toBlob = (\<lambda>cv m. Some \<lparr>blob_data = [0, 0], blob_type = ''image/png''\<rparr>),
      toDataURL = (\<lambda>cv m q. ''data:'' @ m @ '';base64,'' @ concat (replicate (demo_payload q) ''AAAA'')),
      atob = (\<lambda>s. Some (replicate (3 * (length s div 4)) (CHR 0x00)))\<rparr>"

definition demo_image :: image where
  "demo_image = \<lparr>img_src = ''blob:photo.png'', img_width = 3000, img_height = 2000\<rparr>"

definition photo_png :: File where
  "photo_png = \<lparr>file_name = ''photo.png'', file_type = ''image/png'', file_size = 100\<rparr>"

definition broken_jpg :: File where
  "broken_jpg = \<lparr>file_name = ''broken.jpg'', file_type = ''image/jpeg'', file_size = 0\<rparr>"

definition notes_txt :: File where
  "notes_txt = \<lparr>file_name = ''notes.txt'', file_type = ''text/plain'', file_size = 12\<rparr>"

definition fresh_page :: page where
  "fresh_page =
     \<lparr>previewsContainer = [], compressedFilesForZip = [], filesToProcess = 0,
      filesProcessed = 0, downloadAllBtn_display = ''none''\<rparr>"

text \<open>
  The page after a selection of \<open>photo.png\<close> alone has been processed; a selection of
  five images among seven files; a page waiting for the last of five pipelines.
\<close>

definition after_photo :: page where
  "after_photo =
     \<lparr>previewsContainer =
        [\<lparr>card_original_src = ''blob:photo.png'', card_original_name = ''photo.png'',
          card_original_size = 100, card_format = ''(as JPEG)'',
          card_compressed_src = ''data:image/jpeg;base64,AAAA'', card_compressed_size = 3,
          card_download = ''compressed_photo.jpeg''\<rparr>],
      compressedFilesForZip = [], filesToProcess = 1, filesProcessed = 0,
      downloadAllBtn_display = ''none''\<rparr>"



section \<open>Properties\<close>

subsection \<open>The dimension resizer\<close>

lemma bitlen_rat_bounds:
  assumes "0 < n"
  shows "2 powi (bitlen n - 1) \<le> (of_int n :: rat)" and "(of_int n :: rat) < 2 powi bitlen n"
proof -
  from bitlen_bounds [OF assms]
  have a: "2 ^ nat (bitlen n - 1) \<le> n" and b: "n < 2 ^ nat (bitlen n)" by simp_all
  have ge: "1 \<le> bitlen n" using assms by (simp add: bitlen_alt_def)
  have "(of_int (2 ^ nat (bitlen n - 1)) :: rat) \<le> of_int n" using a by (simp only: of_int_le_iff)
  then show "2 powi (bitlen n - 1) \<le> (of_int n :: rat)"
    using ge by (simp add: power_int_nonneg_exp)
  have "(of_int n :: rat) < of_int (2 ^ nat (bitlen n))" using b by (simp only: of_int_less_iff)
  then show "(of_int n :: rat) < 2 powi bitlen n"
    using ge by (simp add: power_int_nonneg_exp)
qed

lemma binade_bounds:
  assumes "0 < x"
  shows "2 powi binade x \<le> x" and "x < 2 powi (binade x + 1)"
proof -
  obtain n d where q: "quotient_of x = (n, d)" by (cases "quotient_of x")
  then have d: "0 < d" and x: "x = of_int n / of_int d"
    by (simp_all add: quotient_of_denom_pos quotient_of_div)
  have n: "0 < n" using assms d unfolding x by (simp add: zero_less_divide_iff)
  let ?c = "bitlen n - bitlen d"
  have dpos: "(0::rat) < of_int d" using d by simp
  have npos: "(0::rat) < of_int n" using n by simp
  have Bpos: "(0::rat) < 2 powi (bitlen d - 1)" and B'pos: "(0::rat) < 2 powi bitlen d"
    by (simp_all add: zero_less_power_int)
  note bn = bitlen_rat_bounds [OF n] and bd = bitlen_rat_bounds [OF d]
  have "of_int n / of_int d \<le> (of_int n :: rat) / 2 powi (bitlen d - 1)"
    using bd(1) npos Bpos dpos by (intro divide_left_mono) (simp_all add: less_imp_le)
  also have "\<dots> < 2 powi bitlen n / 2 powi (bitlen d - 1)"
    using bn(2) Bpos by (intro divide_strict_right_mono)
  also have "\<dots> = 2 powi (?c + 1)"
    by (simp add: power_int_diff [symmetric] algebra_simps)
  finally have up: "x < 2 powi (?c + 1)" unfolding x .
  have "(2::rat) powi (?c - 1) = 2 powi (bitlen n - 1) / 2 powi bitlen d"
    by (simp add: power_int_diff [symmetric] algebra_simps)
  also have "\<dots> \<le> of_int n / 2 powi bitlen d"
    using bn(1) B'pos by (intro divide_right_mono) (simp_all add: less_imp_le)
  also have "\<dots> < of_int n / of_int d"
    using bd(2) npos dpos B'pos by (intro divide_strict_left_mono) simp_all
  finally have low: "2 powi (?c - 1) < x" unfolding x .
  have bin: "binade x = (if 2 powi ?c \<le> x then ?c else ?c - 1)"
    by (simp add: binade_def q Let_def)
  show "2 powi binade x \<le> x" using low by (simp add: bin)
  show "x < 2 powi (binade x + 1)" using up by (auto simp: bin)
qed

lemma round_half_even_error: "\<bar>of_int (round_half_even y) - y\<bar> \<le> 1 / 2"
proof -
  have "of_int \<lfloor>y\<rfloor> \<le> y" and "y < of_int \<lfloor>y\<rfloor> + 1" by linarith+
  then show ?thesis by (auto simp: round_half_even_def Let_def)
qed

lemma binade_ge:
  assumes "2 powi e \<le> x"
  shows "e \<le> binade x"
proof (rule ccontr)
  assume "\<not> e \<le> binade x"
  then have "binade x + 1 \<le> e" by simp
  then have "(2::rat) powi (binade x + 1) \<le> 2 powi e" by (intro power_int_increasing) simp_all
  moreover have "(0::rat) < 2 powi e" by (simp add: zero_less_power_int)
  with assms have "0 < x" by linarith
  ultimately show False using binade_bounds(2) [of x] assms by simp
qed

lemma to_double_error:
  assumes "2 powi (- 1022) \<le> x"
  shows "\<bar>to_double x - x\<bar> \<le> x / 2 ^ 53"
proof -
  have "(0::rat) < 2 powi (- 1022)" by (simp add: zero_less_power_int)
  with assms have pos: "0 < x" by linarith
  have e: "- 1022 \<le> binade x" using assms by (rule binade_ge)
  define q :: rat where "q = 2 powi (binade x - 52)"
  have qpos: "0 < q" by (simp add: q_def zero_less_power_int)
  have td: "to_double x = of_int (round_half_even (x / q)) * q"
    using pos e by (simp add: to_double_def q_def Let_def max_def)
  have "q = 2 powi binade x / 2 ^ 52" by (simp add: q_def power_int_diff)
  also have "\<dots> \<le> x / 2 ^ 52" using binade_bounds(1) [OF pos] by (simp add: divide_right_mono)
  finally have qle: "q \<le> x / 2 ^ 52" .
  have "to_double x - x = (of_int (round_half_even (x / q)) - x / q) * q"
    using qpos by (simp add: td field_simps)
  then have "\<bar>to_double x - x\<bar> = \<bar>of_int (round_half_even (x / q)) - x / q\<bar> * q"
    using qpos by (simp add: abs_mult)
  also have "\<dots> \<le> (1 / 2) * q"
    using round_half_even_error [of "x / q"] qpos by (intro mult_right_mono) simp_all
  also have "\<dots> \<le> (1 / 2) * (x / 2 ^ 52)" using qle by simp
  also have "\<dots> = x / 2 ^ 53" by simp
  finally show ?thesis .
qed

lemma min_normal_le: "(2::rat) powi (- 1022) \<le> 1 / 2 ^ 901"
proof -
  have "(2::rat) powi (- 1022) = 1 / 2 ^ 1022"
    by (simp add: power_int_minus inverse_eq_divide)
  also have "\<dots> \<le> 1 / 2 ^ 901"
    by (intro divide_left_mono power_increasing) simp_all
  finally show ?thesis .
qed

lemma scaled_side:
  assumes s: "1 / 2 ^ 300 \<le> s" and sL: "s \<le> L" and L: "L \<le> 2 ^ 300"
      and m: "1 / 2 ^ 300 \<le> mx" and m': "mx \<le> 2 ^ 300"
  shows "\<bar>dmul s (ddiv mx L) - s * mx / L\<bar> \<le> (1 / 2 ^ 52 + 1 / 2 ^ 106) * (s * mx / L)"
    and "dmul s (ddiv mx L) \<le> mx * (1 + 1 / 2 ^ 53)\<^sup>2"
proof -
  define u :: rat where "u = 1 / 2 ^ 53"
  define t where "t = mx / L"
  define a where "a = to_double t"
  define p where "p = s * a"
  define c where "c = to_double p"
  have u: "0 < u" "u \<le> 1 / 2" by (simp_all add: u_def)
  have spos: "0 < s" using s by (rule less_le_trans [rotated]) simp
  have Lpos: "0 < L" using spos sL by simp
  have mpos: "0 < mx" using m by (rule less_le_trans [rotated]) simp
  have tpos: "0 < t" using mpos Lpos by (simp add: t_def)
  have "1 / 2 ^ 300 / 2 ^ 300 \<le> mx / L"
    using m L Lpos by (intro frac_le) simp_all
  then have tlow: "1 / 2 ^ 600 \<le> t" by (simp add: t_def)
  have "(2::rat) powi (- 1022) \<le> 1 / 2 ^ 901" by (rule min_normal_le)
  also have "\<dots> \<le> 1 / 2 ^ 600" by (intro divide_left_mono power_increasing) simp_all
  finally have "2 powi (- 1022) \<le> t" using tlow by simp
  then have "\<bar>a - t\<bar> \<le> t / 2 ^ 53" unfolding a_def by (rule to_double_error)
  then have at: "\<bar>a - t\<bar> \<le> t * u" by (simp add: u_def)
  then have a_lo: "t * (1 - u) \<le> a" and a_hi: "a \<le> t * (1 + u)"
    by (simp_all add: algebra_simps abs_le_iff)
  have "t * (1 / 2) \<le> t * (1 - u)" using tpos u by (intro mult_left_mono) simp_all
  with a_lo have a_half: "t / 2 \<le> a" by simp
  have "1 / 2 ^ 300 * (1 / 2 ^ 600 / 2) \<le> s * (t / 2)"
    using s tlow by (intro mult_mono) simp_all
  also have "\<dots> \<le> s * a" using a_half spos by (intro mult_left_mono) simp_all
  finally have "1 / 2 ^ 901 \<le> p" by (simp add: p_def)
  with min_normal_le have "2 powi (- 1022) \<le> p" by (rule order_trans)
  then have "\<bar>c - p\<bar> \<le> p / 2 ^ 53" unfolding c_def by (rule to_double_error)
  then have cp: "\<bar>c - p\<bar> \<le> p * u" by (simp add: u_def)
  have p_hi: "p \<le> s * t * (1 + u)"
    using a_hi spos by (simp add: p_def mult.assoc)
  have pst: "\<bar>p - s * t\<bar> \<le> s * t * u"
  proof -
    have "\<bar>p - s * t\<bar> = s * \<bar>a - t\<bar>" using spos by (simp add: p_def right_diff_distrib [symmetric] abs_mult)
    also have "\<dots> \<le> s * (t * u)" using at spos by (intro mult_left_mono) simp_all
    finally show ?thesis by (simp add: mult.assoc)
  qed
  have "p * u \<le> s * t * (1 + u) * u" using p_hi u by (intro mult_right_mono) simp_all
  with cp have cp': "\<bar>c - p\<bar> \<le> s * t * (1 + u) * u" by simp
  have "\<bar>c - s * t\<bar> \<le> \<bar>c - p\<bar> + \<bar>p - s * t\<bar>" by simp
  also have "\<dots> \<le> s * t * (1 + u) * u + s * t * u" using cp' pst by simp
  also have "\<dots> = (1 / 2 ^ 52 + 1 / 2 ^ 106) * (s * t)" by (simp add: u_def algebra_simps)
  finally have err: "\<bar>c - s * t\<bar> \<le> (1 / 2 ^ 52 + 1 / 2 ^ 106) * (s * t)" .
  have st: "s * t = s * mx / L" by (simp add: t_def)
  have cdef: "c = dmul s (ddiv mx L)" by (simp add: c_def p_def a_def t_def dmul_def ddiv_def)
  show "\<bar>dmul s (ddiv mx L) - s * mx / L\<bar> \<le> (1 / 2 ^ 52 + 1 / 2 ^ 106) * (s * mx / L)"
    using err unfolding st cdef .
  have "s * t \<le> mx"
  proof -
    have "s * mx / L \<le> L * mx / L" using sL mpos Lpos by (intro divide_right_mono mult_right_mono) simp_all
    then show ?thesis using Lpos by (simp add: st)
  qed
  have "c \<le> p + p * u" using cp by (simp add: abs_le_iff)
  also have "\<dots> = p * (1 + u)" by (simp add: algebra_simps)
  also have "\<dots> \<le> s * t * (1 + u) * (1 + u)" using p_hi u by (intro mult_right_mono) simp_all
  also have "\<dots> = s * t * (1 + u)\<^sup>2" by (simp add: power2_eq_square)
  also have "\<dots> \<le> mx * (1 + u)\<^sup>2" using \<open>s * t \<le> mx\<close> by (intro mult_right_mono) simp_all
  finally show "dmul s (ddiv mx L) \<le> mx * (1 + 1 / 2 ^ 53)\<^sup>2" unfolding cdef u_def .
qed

text \<open>
  Claim C5, as the code has it. For \<open>width\<close>, \<open>height\<close> and \<open>maxDimension\<close> between
  \<open>2^(-300)\<close> and \<open>2^300\<close>, where no operation overflows or underflows: inputs that both
  fit are returned unchanged; otherwise the longer side (the height when the two are
  equal) becomes exactly \<open>maxDimension\<close> and the other side becomes the rounded product
  of itself with the rounded quotient of \<open>maxDimension\<close> by the longer side, which is
  within the relative error \<open>2^(-52) + 2^(-106)\<close> of the exact scaled value. Both output
  dimensions are at most \<open>maxDimension * (1 + 2^(-53))^2\<close>: the scaled side can exceed
  \<open>maxDimension\<close> by the rounding, and by no more.
\<close>

theorem resizeDimensions_fits_up_to_rounding:
  assumes "1 / 2 ^ 300 \<le> w" and "w \<le> 2 ^ 300"
      and "1 / 2 ^ 300 \<le> h" and "h \<le> 2 ^ 300"
      and "1 / 2 ^ 300 \<le> mx" and "mx \<le> 2 ^ 300"
  shows "width (resizeDimensions w h mx) \<le> mx * (1 + 1 / 2 ^ 53)\<^sup>2
       \<and> height (resizeDimensions w h mx) \<le> mx * (1 + 1 / 2 ^ 53)\<^sup>2
       \<and> (w \<le> mx \<and> h \<le> mx \<longrightarrow> resizeDimensions w h mx = \<lparr>width = w, height = h\<rparr>)
       \<and> ((mx < w \<or> mx < h) \<and> h < w \<longrightarrow>
            width (resizeDimensions w h mx) = mx
            \<and> \<bar>height (resizeDimensions w h mx) - h * mx / w\<bar>
                \<le> (1 / 2 ^ 52 + 1 / 2 ^ 106) * (h * mx / w))
       \<and> ((mx < w \<or> mx < h) \<and> w \<le> h \<longrightarrow>
            height (resizeDimensions w h mx) = mx
            \<and> \<bar>width (resizeDimensions w h mx) - w * mx / h\<bar>
                \<le> (1 / 2 ^ 52 + 1 / 2 ^ 106) * (w * mx / h))"
proof -
  have mpos: "0 < mx" using assms(5) by (rule less_le_trans [rotated]) simp
  have slack: "mx \<le> mx * (1 + 1 / 2 ^ 53)\<^sup>2"
  proof -
    have "(1::rat) \<le> (1 + 1 / 2 ^ 53)\<^sup>2" by (simp add: power2_eq_square algebra_simps)
    then have "mx * 1 \<le> mx * (1 + 1 / 2 ^ 53)\<^sup>2" using mpos by (intro mult_left_mono) simp_all
    then show ?thesis by simp
  qed
  show ?thesis
  proof (cases "mx < w \<or> mx < h")
    case False
    then show ?thesis using slack by (simp add: resizeDimensions_def)
  next
    case big: True
    show ?thesis
    proof (cases "h < w")
      case True
      then have hw: "h \<le> w" by simp
      note sc = scaled_side [OF assms(3) hw assms(2) assms(5) assms(6)]
      show ?thesis using big True sc slack by (simp add: resizeDimensions_def)
    next
      case False
      then have wh: "w \<le> h" by simp
      note sc = scaled_side [OF assms(1) wh assms(4) assms(5) assms(6)]
      show ?thesis using big False sc slack by (simp add: resizeDimensions_def)
    qed
  qed
qed

lemma resize_photo: "resizeDimensions 3000 2000 1920 = \<lparr>width = 1920, height = 1280\<rparr>"
  by code_simp

lemma resize_square: "resizeDimensions 2094 2094 1920
    = \<lparr>width = 8444249301319681 / 4398046511104, height = 1920\<rparr>"
  by code_simp

theorem resizeDimensions_fits_up_to_rounding_witness:
  "(1 / 2 ^ 300 \<le> (2094::rat) \<and> (2094::rat) \<le> 2 ^ 300
    \<and> 1 / 2 ^ 300 \<le> (1920::rat) \<and> (1920::rat) \<le> 2 ^ 300)
   \<and> resizeDimensions 2094 2094 1920 = \<lparr>width = 8444249301319681 / 4398046511104, height = 1920\<rparr>
   \<and> width (resizeDimensions 2094 2094 1920) \<le> 1920 * (1 + 1 / 2 ^ 53)\<^sup>2
   \<and> height (resizeDimensions 2094 2094 1920) = 1920
   \<and> \<bar>width (resizeDimensions 2094 2094 1920) - 2094 * 1920 / 2094\<bar>
        \<le> (1 / 2 ^ 52 + 1 / 2 ^ 106) * (2094 * 1920 / 2094)"
  using resizeDimensions_fits_up_to_rounding [of 2094 2094 1920]
  by (simp add: resize_square)

text \<open>
  Claim C5 bounds both output dimensions by \<open>maxDimension\<close>; a square image of 2094
  pixels gets the width 1920.0000000000002.
\<close>

theorem resizeDimensions_exceeds_max:
  "width (resizeDimensions 2094 2094 1920) = 8444249301319681 / 4398046511104
   \<and> \<not> width (resizeDimensions 2094 2094 1920) \<le> 1920"
  by (simp add: resize_square)

subsection \<open>Derived file names\<close>

lemma lastIndexOf_absent: "c \<notin> set s \<Longrightarrow> lastIndexOf s c = - 1"
  by (simp add: lastIndexOf_def)

lemma lastIndexOf_last:
  assumes "c \<notin> set suf"
  shows "lastIndexOf (base @ c # suf) c = int (length base)"
proof -
  have "takeWhile (\<lambda>x. x \<noteq> c) (rev suf @ c # rev base) = rev suf"
    using assms by (auto simp: takeWhile_tail)
  then show ?thesis by (simp add: lastIndexOf_def)
qed

lemma substring_prefix: "substring (base @ rest) 0 (int (length base)) = base"
  by (simp add: substring_def Let_def min_def max_def)

lemma substring_negative: "substring s 0 (- 1) = []"
  by (simp add: substring_def Let_def min_def max_def)

text \<open>
  Claim C10. With a type string as second argument, a file name without a dot yields just a
  dot followed by the extension, the original name being lost; a file name with a dot keeps
  what precedes its last dot and gets the extension in place of what follows it. The
  extension is the second piece \<open>mimeType.split('/')[1]\<close> of the type, as a template
  literal prints it.
\<close>

theorem changeFileExtension_replaces_suffix:
  "(CHR ''.'' \<notin> set filename \<longrightarrow>
      changeFileExtension filename (Some m)
        = Inr (''.'' @ template_str (second_piece (split_on (CHR ''/'') m))))
   \<and> (CHR ''.'' \<notin> set suf \<longrightarrow>
      changeFileExtension (base @ ''.'' @ suf) (Some m)
        = Inr (base @ ''.'' @ template_str (second_piece (split_on (CHR ''/'') m))))"
  using substring_prefix [of base "CHR ''.'' # suf"]
  by (simp add: changeFileExtension_def lastIndexOf_absent lastIndexOf_last substring_negative)

theorem changeFileExtension_replaces_suffix_witness:
  "CHR ''.'' \<notin> set ''README'' \<and> CHR ''.'' \<notin> set ''png''
   \<and> changeFileExtension ''README'' (Some ''image/jpeg'') = Inr ''.jpeg''
   \<and> changeFileExtension ''my.photo.png'' (Some ''image/jpeg'') = Inr ''my.photo.jpeg''"
  using changeFileExtension_replaces_suffix [of "''README''" "''image/jpeg''" "''png''" "''my.photo''"]
  by (simp add: template_str_def second_piece_def)

subsection \<open>The quality search\<close>

lemma search_iter_cases:
  "search_iter env cv m t s =
     (case encode env cv m ((minQuality s + maxQuality s) / 2) of
        Inl e \<Rightarrow> Inl e
      | Inr b \<Rightarrow>
          Inr (if of_nat (blob_size b) \<le> t
               then s\<lparr>calls := calls s @ [ToDataURL cv m (Some ((minQuality s + maxQuality s) / 2))],
                      bestResult := \<lparr>best_blob = Some b,
                                      best_src = toDataURL env cv m (Some ((minQuality s + maxQuality s) / 2)),
                                      best_quality = (minQuality s + maxQuality s) / 2\<rparr>,
                      minQuality := (minQuality s + maxQuality s) / 2\<rparr>
               else s\<lparr>calls := calls s @ [ToDataURL cv m (Some ((minQuality s + maxQuality s) / 2))],
                      maxQuality := (minQuality s + maxQuality s) / 2\<rparr>))"
  by (simp add: search_iter_def encode_def Let_def split: sum.splits)

lemma search_inv_initial: "search_inv env cv m t initial_search"
  by (simp add: search_inv_def initial_search_def)

lemma search_inv_iter:
  assumes inv: "search_inv env cv m t s" and it: "search_iter env cv m t s = Inr s'"
  shows "search_inv env cv m t s'"
proof -
  define q where "q = (minQuality s + maxQuality s) / 2"
  from inv have lt: "minQuality s < maxQuality s" by (simp add: search_inv_def)
  then have q1: "minQuality s < q" and q2: "q < maxQuality s" by (simp_all add: q_def field_simps)
  from it obtain b where enc: "encode env cv m q = Inr b"
    by (auto simp: search_iter_cases q_def split: sum.splits)
  show ?thesis
  proof (cases "of_nat (blob_size b) \<le> t")
    case True
    then have s': "s' = s\<lparr>calls := calls s @ [ToDataURL cv m (Some q)],
                      bestResult := \<lparr>best_blob = Some b, best_src = toDataURL env cv m (Some q), best_quality = q\<rparr>,
                      minQuality := q\<rparr>"
      using it enc by (simp add: search_iter_cases q_def)
    show ?thesis using inv q1 q2 enc True unfolding s' search_inv_def
      by (auto simp: fits_def)
  next
    case False
    then have s': "s' = s\<lparr>calls := calls s @ [ToDataURL cv m (Some q)], maxQuality := q\<rparr>"
      using it enc by (simp add: search_iter_cases q_def)
    have nf: "\<not> fits env cv m t q" using enc False by (simp add: fits_def)
    show ?thesis using inv q1 q2 nf unfolding s' search_inv_def
      by (auto split: option.splits)
  qed
qed

lemma search_inv_loop:
  "search_inv env cv m t s \<Longrightarrow> search_loop env cv m t i s = Inr s' \<Longrightarrow> search_inv env cv m t s'"
proof (induction env cv m t i s rule: search_loop.induct)
  case (1 env cv m t i s)
  show ?case
  proof (cases "i < 7")
    case True
    with "1.prems"(2) obtain s1 where s1: "search_iter env cv m t s = Inr s1"
      and rest: "search_loop env cv m t (i + 1) s1 = Inr s'"
      by (auto simp: search_loop.simps [of env cv m t i s] split: sum.splits)
    from "1.prems"(1) s1 have "search_inv env cv m t s1" by (rule search_inv_iter)
    with "1.IH" [OF True s1] rest show ?thesis by simp
  next
    case False
    with "1.prems" show ?thesis by (simp add: search_loop.simps [of env cv m t i s])
  qed
qed


lemma search_iter_refines:
  assumes ok: "\<forall>q. \<exists>b. encode env cv m q = Inr b"
  shows "\<exists>s'. search_iter env cv m t s = Inr s'
            \<and> abs_state s' = spec_iteration (encoded env cv m) t (abs_state s)
            \<and> calls s' = calls s @ [ToDataURL cv m (Some (spec_mid (abs_state s)))]"
proof -
  from ok obtain b where "encode env cv m ((minQuality s + maxQuality s) / 2) = Inr b"
    by blast
  then show ?thesis
    by (auto simp: search_iter_cases abs_state_def spec_iteration_def spec_mid_def encoded_def Let_def
             split: option.splits)
qed

lemma map_upt_Suc_shift: "map g [0..<Suc n] = g 0 # map (\<lambda>k. g (Suc k)) [0..<n]"
proof -
  have "[0..<Suc n] = 0 # [Suc 0..<Suc n]" by (rule upt_conv_Cons) simp
  then have "map g [0..<Suc n] = g 0 # map g [Suc 0..<Suc n]" by (simp only: list.map)
  also have "map g [Suc 0..<Suc n] = map (\<lambda>k. g (Suc k)) [0..<n]"
    by (simp only: map_Suc_upt [symmetric] map_map o_def)
  finally show ?thesis .
qed

lemma search_loop_refines:
  assumes ok: "\<forall>q. \<exists>b. encode env cv m q = Inr b"
  shows "i + n = 7 \<Longrightarrow>
         \<exists>s'. search_loop env cv m t i s = Inr s'
            \<and> abs_state s' = (spec_iteration (encoded env cv m) t ^^ n) (abs_state s)
            \<and> calls s' = calls s @
                 map (\<lambda>k. ToDataURL cv m
                        (Some (spec_mid ((spec_iteration (encoded env cv m) t ^^ k) (abs_state s)))))
                     [0..<n]"
proof (induction n arbitrary: i s)
  case 0
  then have "i = 7" by simp
  then show ?case by (simp add: search_loop.simps [of env cv m t 7 s])
next
  case (Suc n)
  then have lt: "i < 7" and next_i: "(i + 1) + n = 7" by simp_all
  from search_iter_refines [OF ok, of t s] obtain s1 where
    it: "search_iter env cv m t s = Inr s1" and
    ab: "abs_state s1 = spec_iteration (encoded env cv m) t (abs_state s)" and
    cl: "calls s1 = calls s @ [ToDataURL cv m (Some (spec_mid (abs_state s)))]"
    by blast
  from Suc.IH [OF next_i, of s1] obtain s' where
    lp: "search_loop env cv m t (i + 1) s1 = Inr s'" and
    ab': "abs_state s' = (spec_iteration (encoded env cv m) t ^^ n) (abs_state s1)" and
    cl': "calls s' = calls s1 @
            map (\<lambda>k. ToDataURL cv m
                   (Some (spec_mid ((spec_iteration (encoded env cv m) t ^^ k) (abs_state s1)))))
                [0..<n]"
    by blast
  have "search_loop env cv m t i s = Inr s'"
    using lt it lp by (simp add: search_loop.simps [of env cv m t i s])
  moreover have "abs_state s' = (spec_iteration (encoded env cv m) t ^^ Suc n) (abs_state s)"
    using ab' ab by (simp add: funpow_swap1)
  moreover have "calls s' = calls s @
            map (\<lambda>k. ToDataURL cv m
                   (Some (spec_mid ((spec_iteration (encoded env cv m) t ^^ k) (abs_state s)))))
                [0..<Suc n]"
    unfolding cl' cl ab map_upt_Suc_shift [of _ n] by (simp add: funpow_swap1)
  ultimately show ?case by blast
qed

lemma abs_state_initial: "abs_state initial_search = (0, 1, None)"
  by (simp add: abs_state_def initial_search_def)

lemma format_label_jpeg: "format_label p ''image/jpeg'' = Inr (p @ ''JPEG)'')"
  by (simp add: format_label_def second_piece_def toUpperCase_def upper_char_def)

lemma format_label_webp: "format_label p ''image/webp'' = Inr (p @ ''WEBP)'')"
  by (simp add: format_label_def second_piece_def toUpperCase_def upper_char_def)

lemma compressImage_search:
  assumes "m = ''image/jpeg'' \<or> m = ''image/webp''"
  shows "compressImage env img m t flag =
     (case search_loop env (prepare_canvas img flag) m t 0 initial_search of
        Inl e \<Rightarrow> Inl e
      | Inr s \<Rightarrow>
          (case fallback env (prepare_canvas img flag) m s of
             Inl e \<Rightarrow> Inl e
           | Inr s' \<Rightarrow>
               Inr (\<lparr>res_blob = best_blob (bestResult s'),
                     res_src = best_src (bestResult s'),
                     res_quality = Some (best_quality (bestResult s')),
                     res_format = (if m = ''image/jpeg'' then ''(as JPEG)'' else ''(as WEBP)'')\<rparr>,
                    calls s')))"
  using assms
  by (auto simp: compressImage_def Let_def format_label_jpeg format_label_webp split: sum.splits)

lemma split_on_absent: "c \<notin> set ys \<Longrightarrow> split_on c ys = [ys]"
  by (induction ys) auto

lemma fill_u8_prefix:
  "n \<le> length bstr \<Longrightarrow> n \<le> length u \<Longrightarrow>
   fill_u8 bstr n u = map of_char (take n bstr) @ drop n u"
proof (induction n arbitrary: u)
  case 0
  then show ?case by simp
next
  case (Suc n)
  have "fill_u8 bstr (Suc n) u = fill_u8 bstr n (u[n := of_char (bstr ! n)])" by simp
  also have "\<dots> = map of_char (take n bstr) @ drop n (u[n := of_char (bstr ! n)])"
    using Suc by simp
  also have "drop n (u[n := of_char (bstr ! n)]) = of_char (bstr ! n) # drop (Suc n) u"
    using Suc.prems by (simp add: Cons_nth_drop_Suc [symmetric])
  finally show ?case using Suc.prems by (simp add: take_Suc_conv_app_nth)
qed

lemma fill_u8_all: "fill_u8 bstr (length bstr) (replicate (length bstr) 0) = map of_char bstr"
  by (simp add: fill_u8_prefix)

lemma fill_u8_replicate:
  "fill_u8 (replicate k c) k (replicate k 0) = replicate k (of_char c)"
  using fill_u8_all [of "replicate k c"] by simp

lemma demo_payload_length: "length (concat (replicate n ''AAAA'')) div 4 = n"
  by (simp add: length_concat sum_list_replicate)

lemma demo_dataURLtoBlob:
  "dataURLtoBlob demo_browser (''data:image/jpeg;base64,'' @ concat (replicate n ''AAAA'')) =
     Inr \<lparr>blob_data = replicate (3 * n) 0, blob_type = ''image/jpeg''\<rparr>"
proof -
  have sp: "split_on (CHR '','') (''data:image/jpeg;base64,'' @ concat (replicate n ''AAAA''))
              = [''data:image/jpeg;base64'', concat (replicate n ''AAAA'')]"
    by (simp add: split_on_absent)
  have mm: "match_mime ''data:image/jpeg;base64'' = Some ''image/jpeg''"
    by code_simp
  have at: "atob demo_browser (concat (replicate n ''AAAA'')) = Some (replicate (3 * n) (CHR 0x00))"
    using demo_payload_length [of n] by (simp add: demo_browser_def)
  show ?thesis
    unfolding dataURLtoBlob_def sp
    by (simp add: mm at template_str_def second_piece_def fill_u8_replicate del: match_mime.simps)
qed

lemma demo_encode:
  "encode demo_browser cv ''image/jpeg'' q =
     Inr \<lparr>blob_data = replicate (3 * demo_payload (Some q)) 0, blob_type = ''image/jpeg''\<rparr>"
  using demo_dataURLtoBlob [of "demo_payload (Some q)"]
  by (simp add: encode_def demo_browser_def)

lemma demo_size: "blob_size \<lparr>blob_data = replicate n 0, blob_type = ty\<rparr> = n"
  by (simp add: blob_size_def)


lemma demo_loop:
  "search_loop demo_browser cv ''image/jpeg'' 10 0 initial_search =
     Inr \<lparr>minQuality = 1 / 4, maxQuality = 33 / 128,
          bestResult =
            \<lparr>best_blob = Some \<lparr>blob_data = replicate 3 0, blob_type = ''image/jpeg''\<rparr>,
             best_src = toDataURL demo_browser cv ''image/jpeg'' (Some (1 / 4)),
             best_quality = 1 / 4\<rparr>,
          calls =
            [ToDataURL cv ''image/jpeg'' (Some (1 / 2)),
             ToDataURL cv ''image/jpeg'' (Some (1 / 4)),
             ToDataURL cv ''image/jpeg'' (Some (3 / 8)),
             ToDataURL cv ''image/jpeg'' (Some (5 / 16)),
             ToDataURL cv ''image/jpeg'' (Some (9 / 32)),
             ToDataURL cv ''image/jpeg'' (Some (17 / 64)),
             ToDataURL cv ''image/jpeg'' (Some (33 / 128))]\<rparr>"
  by (simp add: search_loop.simps search_iter_cases demo_encode demo_size demo_payload_def
                initial_search_def)

lemma demo_tested:
  "tested_qualities demo_browser cv ''image/jpeg'' 10
     = [1 / 2, 1 / 4, 3 / 8, 5 / 16, 9 / 32, 17 / 64, 33 / 128]"
  by (simp add: tested_qualities_def demo_loop)

lemma demo_loop_tight:
  "search_loop demo_browser cv ''image/jpeg'' 2 0 initial_search =
     Inr \<lparr>minQuality = 0, maxQuality = 1 / 128,
          bestResult = \<lparr>best_blob = None, best_src = [], best_quality = 0\<rparr>,
          calls =
            [ToDataURL cv ''image/jpeg'' (Some (1 / 2)),
             ToDataURL cv ''image/jpeg'' (Some (1 / 4)),
             ToDataURL cv ''image/jpeg'' (Some (1 / 8)),
             ToDataURL cv ''image/jpeg'' (Some (1 / 16)),
             ToDataURL cv ''image/jpeg'' (Some (1 / 32)),
             ToDataURL cv ''image/jpeg'' (Some (1 / 64)),
             ToDataURL cv ''image/jpeg'' (Some (1 / 128))]\<rparr>"
  by (simp add: search_loop.simps search_iter_cases demo_encode demo_size demo_payload_def
                initial_search_def)

lemma demo_tested_tight:
  "tested_qualities demo_browser cv ''image/jpeg'' 2
     = [1 / 2, 1 / 4, 1 / 8, 1 / 16, 1 / 32, 1 / 64, 1 / 128]"
  by (simp add: tested_qualities_def demo_loop_tight)

lemma demo_fits: "fits demo_browser cv ''image/jpeg'' t q = (of_nat (3 * demo_payload (Some q)) \<le> t)"
  by (simp add: fits_def demo_encode demo_size)

lemma tested_member:
  assumes "\<forall>c \<in> set cs. \<exists>q. c = ToDataURL cv m (Some q)"
  shows "q \<in> set (List.map_filter call_quality cs) \<longleftrightarrow> ToDataURL cv m (Some q) \<in> set cs"
proof
  assume "q \<in> set (List.map_filter call_quality cs)"
  then obtain c where c: "c \<in> set cs" "call_quality c = Some q"
    by (auto simp: List.map_filter_def)
  with assms obtain q' where "c = ToDataURL cv m (Some q')" by blast
  with c show "ToDataURL cv m (Some q) \<in> set cs" by simp
next
  assume "ToDataURL cv m (Some q) \<in> set cs"
  then show "q \<in> set (List.map_filter call_quality cs)"
    by (force simp: List.map_filter_def)
qed

text \<open>
  Claim C1. For a JPEG or WebP encode whose budget is met at one of the qualities the loop
  tests, \<open>compressImage\<close> returns a blob of at most \<open>targetSize\<close> bytes, encoded at one of
  the tested qualities, and every tested quality above the returned one misses the budget.
  The encoder is assumed to deliver a decodable data URL at every quality, so that no
  encode raises.
\<close>

theorem quality_search_returns_highest_tested_quality_within_budget:
  assumes cap: "mimeType = ''image/jpeg'' \<or> mimeType = ''image/webp''"
      and ok: "\<forall>q. \<exists>b. encode env (prepare_canvas img isPng) mimeType q = Inr b"
      and reach: "\<exists>q \<in> set (tested_qualities env (prepare_canvas img isPng) mimeType targetSize).
                    fits env (prepare_canvas img isPng) mimeType targetSize q"
  shows "\<exists>r made b q.
           compressImage env img mimeType targetSize isPng = Inr (r, made)
           \<and> res_blob r = Some b \<and> of_nat (blob_size b) \<le> targetSize
           \<and> res_quality r = Some q
           \<and> encode env (prepare_canvas img isPng) mimeType q = Inr b
           \<and> q \<in> set (tested_qualities env (prepare_canvas img isPng) mimeType targetSize)
           \<and> (\<forall>q' \<in> set (tested_qualities env (prepare_canvas img isPng) mimeType targetSize).
                 q < q' \<longrightarrow> \<not> fits env (prepare_canvas img isPng) mimeType targetSize q')"
proof -
  let ?cv = "prepare_canvas img isPng"
  from search_loop_refines [OF ok, of 0 7 targetSize initial_search]
  obtain s where lp: "search_loop env ?cv mimeType targetSize 0 initial_search = Inr s"
    by auto
  have inv: "search_inv env ?cv mimeType targetSize s"
    using search_inv_initial lp by (rule search_inv_loop)
  have tq: "tested_qualities env ?cv mimeType targetSize = List.map_filter call_quality (calls s)"
    using lp by (simp add: tested_qualities_def)
  have shape: "\<forall>c \<in> set (calls s). \<exists>q. c = ToDataURL ?cv mimeType (Some q)"
    using inv by (simp add: search_inv_def)
  note mem = tested_member [OF shape]
  from reach obtain q0 where "q0 \<in> set (List.map_filter call_quality (calls s))"
      and q0f: "fits env ?cv mimeType targetSize q0"
    unfolding tq by blast
  then have q0: "ToDataURL ?cv mimeType (Some q0) \<in> set (calls s)"
    by (simp only: mem)
  with q0f inv obtain b where b: "best_blob (bestResult s) = Some b"
    by (cases "best_blob (bestResult s)") (auto simp: search_inv_def)
  with inv have best: "ToDataURL ?cv mimeType (Some (minQuality s)) \<in> set (calls s)"
      "encode env ?cv mimeType (minQuality s) = Inr b" "of_nat (blob_size b) \<le> targetSize"
      "best_quality (bestResult s) = minQuality s"
    by (simp_all add: search_inv_def)
  have top: "\<forall>q'. ToDataURL ?cv mimeType (Some q') \<in> set (calls s)
                \<longrightarrow> fits env ?cv mimeType targetSize q' \<longrightarrow> q' \<le> minQuality s"
    using inv by (simp add: search_inv_def)
  have fb: "fallback env ?cv mimeType s = Inr s" using b by (simp add: fallback_def)
  have "compressImage env img mimeType targetSize isPng =
          Inr (\<lparr>res_blob = Some b, res_src = best_src (bestResult s),
                res_quality = Some (minQuality s),
                res_format = (if mimeType = ''image/jpeg'' then ''(as JPEG)'' else ''(as WEBP)'')\<rparr>,
               calls s)"
    by (simp add: compressImage_search [OF cap] lp fb b best)
  moreover have "\<forall>q' \<in> set (tested_qualities env ?cv mimeType targetSize).
                   minQuality s < q' \<longrightarrow> \<not> fits env ?cv mimeType targetSize q'"
    using top by (auto simp: tq mem)
  moreover have "minQuality s \<in> set (tested_qualities env ?cv mimeType targetSize)"
    using best(1) by (simp only: tq mem)
  ultimately show ?thesis using best by auto
qed

theorem quality_search_returns_highest_tested_quality_within_budget_witness:
  "(''image/jpeg'' = ''image/jpeg'' \<or> ''image/jpeg'' = ''image/webp'')
   \<and> (\<forall>q. \<exists>b. encode demo_browser (prepare_canvas demo_image False) ''image/jpeg'' q = Inr b)
   \<and> (\<exists>q \<in> set (tested_qualities demo_browser (prepare_canvas demo_image False) ''image/jpeg'' 10).
         fits demo_browser (prepare_canvas demo_image False) ''image/jpeg'' 10 q)
   \<and> (\<exists>r made b q.
         compressImage demo_browser demo_image ''image/jpeg'' 10 False = Inr (r, made)
         \<and> res_blob r = Some b \<and> of_nat (blob_size b) \<le> (10::rat)
         \<and> res_quality r = Some q
         \<and> encode demo_browser (prepare_canvas demo_image False) ''image/jpeg'' q = Inr b
         \<and> q \<in> set (tested_qualities demo_browser (prepare_canvas demo_image False) ''image/jpeg'' 10)
         \<and> (\<forall>q' \<in> set (tested_qualities demo_browser (prepare_canvas demo_image False) ''image/jpeg'' 10).
               q < q' \<longrightarrow> \<not> fits demo_browser (prepare_canvas demo_image False) ''image/jpeg'' 10 q'))"
proof -
  have ok: "\<forall>q. \<exists>b. encode demo_browser (prepare_canvas demo_image False) ''image/jpeg'' q = Inr b"
    by (simp add: demo_encode)
  have reach: "\<exists>q \<in> set (tested_qualities demo_browser (prepare_canvas demo_image False) ''image/jpeg'' 10).
         fits demo_browser (prepare_canvas demo_image False) ''image/jpeg'' 10 q"
    by (simp add: demo_tested demo_fits demo_payload_def)
  show ?thesis
    using quality_search_returns_highest_tested_quality_within_budget
            [of "''image/jpeg''" demo_browser demo_image False 10, OF _ ok reach] ok reach
    by simp
qed

lemma fallback_ok:
  assumes ok: "\<forall>q. \<exists>b. encode env cv m q = Inr b"
  shows "\<exists>s'. fallback env cv m s = Inr s'
            \<and> best_blob (bestResult s') \<noteq> None
            \<and> (calls s' = calls s \<or> calls s' = calls s @ [ToDataURL cv m (Some (1 / 10))])"
proof (cases "best_blob (bestResult s)")
  case None
  from ok obtain b where "encode env cv m (1 / 10) = Inr b" by blast
  with None show ?thesis by (simp add: fallback_def encode_def Let_def)
next
  case (Some b)
  then show ?thesis by (simp add: fallback_def)
qed

lemma fallback_none:
  assumes "best_blob (bestResult s) = None" and "encode env cv m (1 / 10) = Inr b"
  shows "fallback env cv m s =
           Inr (s\<lparr>bestResult := \<lparr>best_blob = Some b,
                                  best_src = toDataURL env cv m (Some (1 / 10)),
                                  best_quality = 1 / 10\<rparr>,
                  calls := calls s @ [ToDataURL cv m (Some (1 / 10))]\<rparr>)"
  using assms by (simp add: fallback_def encode_def Let_def)

lemma calls_initial: "calls initial_search = []"
  by (simp add: initial_search_def)

lemma search_loop_from_start:
  assumes ok: "\<forall>q. \<exists>b. encode env cv m q = Inr b"
  shows "\<exists>s. search_loop env cv m t 0 initial_search = Inr s
           \<and> length (calls s) = 7
           \<and> calls s = map (\<lambda>k. ToDataURL cv m (Some (spec_mid (spec_search (encoded env cv m) t k)))) [0..<7]
           \<and> abs_state s = spec_search (encoded env cv m) t 7"
proof -
  have "0 + 7 = (7::nat)" by simp
  from search_loop_refines [OF ok this, of t initial_search]
  obtain s where lp: "search_loop env cv m t 0 initial_search = Inr s"
    and ab: "abs_state s = (spec_iteration (encoded env cv m) t ^^ 7) (abs_state initial_search)"
    and cl: "calls s = calls initial_search @
                 map (\<lambda>k. ToDataURL cv m
                        (Some (spec_mid ((spec_iteration (encoded env cv m) t ^^ k) (abs_state initial_search)))))
                     [0..<7]"
    by blast
  have cl': "calls s = map (\<lambda>k. ToDataURL cv m (Some (spec_mid (spec_search (encoded env cv m) t k)))) [0..<7]"
    unfolding cl calls_initial abs_state_initial spec_search_def by simp
  have "length (calls s) = 7" unfolding cl' by simp
  moreover have "abs_state s = spec_search (encoded env cv m) t 7"
    unfolding ab abs_state_initial spec_search_def by simp
  ultimately show ?thesis using lp cl' by blast
qed

text \<open>
  Claim C2. For a JPEG or WebP encode the loop runs its body exactly seven times and is
  the bisection the specification describes: its seven encoder calls are made at the
  midpoints of the successive states of \<open>spec_search\<close>, its final bounds and best result
  are those of \<open>spec_search\<close> after seven iterations, and these seven calls open the list of
  encoder calls of \<open>compressImage\<close>.
\<close>

theorem quality_search_is_seven_bisection_steps:
  assumes cap: "mimeType = ''image/jpeg'' \<or> mimeType = ''image/webp''"
      and ok: "\<forall>q. \<exists>b. encode env (prepare_canvas img isPng) mimeType q = Inr b"
  shows "\<exists>s r made.
           search_loop env (prepare_canvas img isPng) mimeType targetSize 0 initial_search = Inr s
           \<and> length (calls s) = 7
           \<and> calls s =
               map (\<lambda>k. ToDataURL (prepare_canvas img isPng) mimeType
                      (Some (spec_mid
                         (spec_search (encoded env (prepare_canvas img isPng) mimeType) targetSize k))))
                   [0..<7]
           \<and> abs_state s = spec_search (encoded env (prepare_canvas img isPng) mimeType) targetSize 7
           \<and> compressImage env img mimeType targetSize isPng = Inr (r, made)
           \<and> take 7 made = calls s"
proof -
  let ?cv = "prepare_canvas img isPng"
  from search_loop_from_start [OF ok, of targetSize]
  obtain s where lp: "search_loop env ?cv mimeType targetSize 0 initial_search = Inr s"
    and len: "length (calls s) = 7"
    and cl: "calls s = map (\<lambda>k. ToDataURL ?cv mimeType
                      (Some (spec_mid (spec_search (encoded env ?cv mimeType) targetSize k)))) [0..<7]"
    and ab: "abs_state s = spec_search (encoded env ?cv mimeType) targetSize 7"
    by blast
  from fallback_ok [OF ok, of s] obtain s' where
    fb: "fallback env ?cv mimeType s = Inr s'" and
    cs: "calls s' = calls s \<or> calls s' = calls s @ [ToDataURL ?cv mimeType (Some (1 / 10))]"
    by blast
  from cs len have tk: "take 7 (calls s') = calls s" by auto
  have "\<exists>r. compressImage env img mimeType targetSize isPng = Inr (r, calls s')"
    by (simp add: compressImage_search [OF cap] lp fb)
  with lp len cl ab tk show ?thesis by blast
qed

theorem quality_search_is_seven_bisection_steps_witness:
  "(''image/jpeg'' = ''image/jpeg'' \<or> ''image/jpeg'' = ''image/webp'')
   \<and> (\<forall>q. \<exists>b. encode demo_browser (prepare_canvas demo_image False) ''image/jpeg'' q = Inr b)
   \<and> tested_qualities demo_browser (prepare_canvas demo_image False) ''image/jpeg'' 10
       = [1 / 2, 1 / 4, 3 / 8, 5 / 16, 9 / 32, 17 / 64, 33 / 128]
   \<and> (\<exists>s r made.
         search_loop demo_browser (prepare_canvas demo_image False) ''image/jpeg'' 10 0 initial_search = Inr s
         \<and> length (calls s) = 7
         \<and> calls s =
             map (\<lambda>k. ToDataURL (prepare_canvas demo_image False) ''image/jpeg''
                    (Some (spec_mid
                       (spec_search (encoded demo_browser (prepare_canvas demo_image False) ''image/jpeg'') 10 k))))
                 [0..<7]
         \<and> abs_state s = spec_search (encoded demo_browser (prepare_canvas demo_image False) ''image/jpeg'') 10 7
         \<and> compressImage demo_browser demo_image ''image/jpeg'' 10 False = Inr (r, made)
         \<and> take 7 made = calls s)"
proof -
  have ok: "\<forall>q. \<exists>b. encode demo_browser (prepare_canvas demo_image False) ''image/jpeg'' q = Inr b"
    by (simp add: demo_encode)
  show ?thesis
    using quality_search_is_seven_bisection_steps
            [of "''image/jpeg''" demo_browser demo_image False 10, OF _ ok] ok
    by (simp add: demo_tested)
qed

lemma tested_as_spec:
  assumes ok: "\<forall>q. \<exists>b. encode env cv m q = Inr b"
  shows "tested_qualities env cv m t = map (\<lambda>k. spec_mid (spec_search (encoded env cv m) t k)) [0..<7]"
proof -
  from search_loop_from_start [OF ok, of t] obtain s where
    lp: "search_loop env cv m t 0 initial_search = Inr s" and
    cl: "calls s = map (\<lambda>k. ToDataURL cv m (Some (spec_mid (spec_search (encoded env cv m) t k)))) [0..<7]"
    by blast
  have "List.map_filter call_quality (map (\<lambda>k. ToDataURL cv m (Some (f k))) ks) = map f ks" for f and ks :: "nat list"
    by (induction ks) simp_all
  then show ?thesis using lp by (simp add: tested_qualities_def cl)
qed

lemma all_miss_states:
  assumes ok: "\<forall>q. \<exists>b. encode env cv m q = Inr b"
      and miss: "\<forall>q \<in> set (tested_qualities env cv m t). \<not> fits env cv m t q"
  shows "k \<le> 7 \<Longrightarrow> spec_search (encoded env cv m) t k = (0, 1 / 2 ^ k, None)"
proof (induction k)
  case 0
  show ?case by (simp add: spec_search_def)
next
  case (Suc k)
  then have st: "spec_search (encoded env cv m) t k = (0, 1 / 2 ^ k, None)" and lt: "k < 7"
    by simp_all
  have mid: "spec_mid (spec_search (encoded env cv m) t k) = 1 / 2 ^ Suc k"
    by (simp add: st spec_mid_def)
  have "spec_mid (spec_search (encoded env cv m) t k) \<in> set (tested_qualities env cv m t)"
    unfolding tested_as_spec [OF ok] using lt by simp
  then have "1 / 2 ^ Suc k \<in> set (tested_qualities env cv m t)"
    by (simp only: mid)
  with miss have nf: "\<not> fits env cv m t (1 / 2 ^ Suc k)"
    by blast
  from ok obtain b where b: "encode env cv m (1 / 2 ^ Suc k) = Inr b" by blast
  with nf have over: "\<not> of_nat (blob_size (encoded env cv m (1 / 2 ^ Suc k))) \<le> t"
    by (simp add: fits_def encoded_def)
  have halve: "(0 + 1 / 2 ^ k) / 2 = (1 / 2 ^ Suc k :: rat)" by simp
  have "spec_iteration (encoded env cv m) t (0, 1 / 2 ^ k, None) = (0, 1 / 2 ^ Suc k, None)"
    unfolding spec_iteration_def prod.case Let_def halve using over by (simp only: if_False)
  moreover have "spec_search (encoded env cv m) t (Suc k)
                   = spec_iteration (encoded env cv m) t (spec_search (encoded env cv m) t k)"
    by (simp add: spec_search_def)
  ultimately show ?case by (simp only: st)
qed

lemma all_miss_tested:
  assumes ok: "\<forall>q. \<exists>b. encode env cv m q = Inr b"
      and miss: "\<forall>q \<in> set (tested_qualities env cv m t). \<not> fits env cv m t q"
  shows "tested_qualities env cv m t = [1 / 2, 1 / 4, 1 / 8, 1 / 16, 1 / 32, 1 / 64, 1 / 128]"
proof -
  have "map (\<lambda>k. spec_mid (spec_search (encoded env cv m) t k)) [0..<7]
          = map (\<lambda>k. 1 / 2 ^ Suc k) [0..<7]"
    by (rule map_cong [OF refl]) (simp add: all_miss_states [OF ok miss] spec_mid_def)
  also have "\<dots> = map (\<lambda>k. 1 / 2 ^ Suc k) [0, 1, 2, 3, 4, 5, 6]"
    by (simp add: upt_conv_Cons)
  also have "\<dots> = [1 / 2, 1 / 4, 1 / 8, 1 / 16, 1 / 32, 1 / 64, 1 / 128]"
    by simp
  finally show ?thesis by (simp only: tested_as_spec [OF ok])
qed

text \<open>
  Claim C3. For a JPEG or WebP encode \<open>compressImage\<close> returns a result whose blob is not
  \<open>null\<close>; and when none of the seven tested qualities meets the budget, it makes one
  further encode at quality 0.1 after the seven of the loop and returns that blob, its
  data URL and the quality 0.1; the seven tested qualities are then 1/2, 1/4, ..., 1/128,
  so that this is the only encode at 0.1.
\<close>

theorem quality_search_falls_back_once_and_returns_a_blob:
  assumes cap: "mimeType = ''image/jpeg'' \<or> mimeType = ''image/webp''"
      and ok: "\<forall>q. \<exists>b. encode env (prepare_canvas img isPng) mimeType q = Inr b"
  shows "(\<exists>r made. compressImage env img mimeType targetSize isPng = Inr (r, made)
                    \<and> res_blob r \<noteq> None)
       \<and> ((\<forall>q \<in> set (tested_qualities env (prepare_canvas img isPng) mimeType targetSize).
              \<not> fits env (prepare_canvas img isPng) mimeType targetSize q) \<longrightarrow>
           (\<exists>s b r.
              search_loop env (prepare_canvas img isPng) mimeType targetSize 0 initial_search = Inr s
              \<and> length (calls s) = 7
              \<and> encode env (prepare_canvas img isPng) mimeType (1 / 10) = Inr b
              \<and> compressImage env img mimeType targetSize isPng
                  = Inr (r, calls s @ [ToDataURL (prepare_canvas img isPng) mimeType (Some (1 / 10))])
              \<and> res_blob r = Some b
              \<and> res_src r = toDataURL env (prepare_canvas img isPng) mimeType (Some (1 / 10))
              \<and> res_quality r = Some (1 / 10)
              \<and> tested_qualities env (prepare_canvas img isPng) mimeType targetSize
                  = [1 / 2, 1 / 4, 1 / 8, 1 / 16, 1 / 32, 1 / 64, 1 / 128]))"
proof -
  let ?cv = "prepare_canvas img isPng"
  from search_loop_from_start [OF ok, of targetSize]
  obtain s where lp: "search_loop env ?cv mimeType targetSize 0 initial_search = Inr s"
    and len: "length (calls s) = 7"
    by blast
  have inv: "search_inv env ?cv mimeType targetSize s"
    using search_inv_initial lp by (rule search_inv_loop)
  have tq: "tested_qualities env ?cv mimeType targetSize = List.map_filter call_quality (calls s)"
    using lp by (simp add: tested_qualities_def)
  have shape: "\<forall>c \<in> set (calls s). \<exists>q. c = ToDataURL ?cv mimeType (Some q)"
    using inv by (simp add: search_inv_def)
  note mem = tested_member [OF shape]
  from fallback_ok [OF ok, of s] obtain s' where
    fb: "fallback env ?cv mimeType s = Inr s'" and nn: "best_blob (bestResult s') \<noteq> None"
    by blast
  have first: "\<exists>r made. compressImage env img mimeType targetSize isPng = Inr (r, made)
                    \<and> res_blob r \<noteq> None"
    using nn by (simp add: compressImage_search [OF cap] lp fb)
  have second: "\<exists>s b r.
              search_loop env ?cv mimeType targetSize 0 initial_search = Inr s
              \<and> length (calls s) = 7
              \<and> encode env ?cv mimeType (1 / 10) = Inr b
              \<and> compressImage env img mimeType targetSize isPng
                  = Inr (r, calls s @ [ToDataURL ?cv mimeType (Some (1 / 10))])
              \<and> res_blob r = Some b
              \<and> res_src r = toDataURL env ?cv mimeType (Some (1 / 10))
              \<and> res_quality r = Some (1 / 10)
              \<and> tested_qualities env ?cv mimeType targetSize
                  = [1 / 2, 1 / 4, 1 / 8, 1 / 16, 1 / 32, 1 / 64, 1 / 128]"
    if miss: "\<forall>q \<in> set (tested_qualities env ?cv mimeType targetSize).
                \<not> fits env ?cv mimeType targetSize q"
  proof -
    have none: "best_blob (bestResult s) = None"
    proof (cases "best_blob (bestResult s)")
      case (Some b')
      with inv have "ToDataURL ?cv mimeType (Some (minQuality s)) \<in> set (calls s)"
        and "fits env ?cv mimeType targetSize (minQuality s)"
        by (simp_all add: search_inv_def fits_def)
      with miss show ?thesis by (auto simp: tq mem)
    qed simp
    from ok obtain b where enc: "encode env ?cv mimeType (1 / 10) = Inr b" by blast
    have "compressImage env img mimeType targetSize isPng =
            Inr (\<lparr>res_blob = Some b, res_src = toDataURL env ?cv mimeType (Some (1 / 10)),
                  res_quality = Some (1 / 10),
                  res_format = (if mimeType = ''image/jpeg'' then ''(as JPEG)'' else ''(as WEBP)'')\<rparr>,
                 calls s @ [ToDataURL ?cv mimeType (Some (1 / 10))])"
      by (simp add: compressImage_search [OF cap] lp fallback_none [OF none enc])
    with lp len enc all_miss_tested [OF ok miss] show ?thesis by auto
  qed
  from first second show ?thesis by blast
qed

theorem quality_search_falls_back_once_and_returns_a_blob_witness:
  "(''image/jpeg'' = ''image/jpeg'' \<or> ''image/jpeg'' = ''image/webp'')
   \<and> (\<forall>q. \<exists>b. encode demo_browser (prepare_canvas demo_image False) ''image/jpeg'' q = Inr b)
   \<and> tested_qualities demo_browser (prepare_canvas demo_image False) ''image/jpeg'' 2
       = [1 / 2, 1 / 4, 1 / 8, 1 / 16, 1 / 32, 1 / 64, 1 / 128]
   \<and> \<not> list_ex (fits demo_browser (prepare_canvas demo_image False) ''image/jpeg'' 2)
          [1 / 2, 1 / 4, 1 / 8, 1 / 16, 1 / 32, 1 / 64, 1 / 128]
   \<and> (\<exists>r made. compressImage demo_browser demo_image ''image/jpeg'' 2 False = Inr (r, made)
                    \<and> res_blob r \<noteq> None)
   \<and> (\<exists>s b r.
              search_loop demo_browser (prepare_canvas demo_image False) ''image/jpeg'' 2 0 initial_search = Inr s
              \<and> length (calls s) = 7
              \<and> encode demo_browser (prepare_canvas demo_image False) ''image/jpeg'' (1 / 10) = Inr b
              \<and> compressImage demo_browser demo_image ''image/jpeg'' 2 False
                  = Inr (r, calls s @ [ToDataURL (prepare_canvas demo_image False) ''image/jpeg'' (Some (1 / 10))])
              \<and> res_blob r = Some b
              \<and> res_src r = toDataURL demo_browser (prepare_canvas demo_image False) ''image/jpeg'' (Some (1 / 10))
              \<and> res_quality r = Some (1 / 10))"
proof -
  have ok: "\<forall>q. \<exists>b. encode demo_browser (prepare_canvas demo_image False) ''image/jpeg'' q = Inr b"
    by (simp add: demo_encode)
  have miss: "\<forall>q \<in> set (tested_qualities demo_browser (prepare_canvas demo_image False) ''image/jpeg'' 2).
              \<not> fits demo_browser (prepare_canvas demo_image False) ''image/jpeg'' 2 q"
    by (simp add: demo_tested_tight demo_fits demo_payload_def)
  show ?thesis
    using quality_search_falls_back_once_and_returns_a_blob
            [of "''image/jpeg''" demo_browser demo_image False 2, OF _ ok] ok miss
    by (simp add: demo_tested_tight)
qed

subsection \<open>Output type, flattening and formats without a quality\<close>

lemma split_on_nonempty: "split_on c s \<noteq> []"
  by (induction s) (auto split: list.splits)

lemma split_on_second:
  "c \<in> set s \<Longrightarrow> \<exists>e. second_piece (split_on c s) = Some e"
proof (induction s)
  case Nil
  then show ?case by simp
next
  case (Cons x xs)
  show ?case
  proof (cases "x = c")
    case True
    obtain p ps where "split_on c xs = p # ps"
      using split_on_nonempty [of c xs] by (cases "split_on c xs") auto
    with True show ?thesis by (simp add: second_piece_def)
  next
    case False
    with Cons obtain e where "second_piece (split_on c xs) = Some e" by auto
    with False show ?thesis by (auto simp: second_piece_def split: list.splits)
  qed
qed

text \<open>
  Claim C6, as the code has it. For an encode type other than JPEG and WebP (and with a
  slash in it, as every type the listener lets through has) there is no quality search and
  the budget plays no part: the result does not depend on \<open>targetSize\<close>. The canvas is
  encoded at default settings twice, once by \<open>toBlob\<close> for the returned blob and once by
  \<open>toDataURL\<close> for the returned preview source.
\<close>

theorem other_formats_encode_twice_at_defaults_without_budget:
  assumes "mimeType \<noteq> ''image/jpeg''" and "mimeType \<noteq> ''image/webp''"
      and "CHR ''/'' \<in> set mimeType"
  shows "compressImage env img mimeType targetSize isPng =
           Inr (\<lparr>res_blob = toBlob env (prepare_canvas img isPng) mimeType,
                 res_src = toDataURL env (prepare_canvas img isPng) mimeType None,
                 res_quality = None,
                 res_format = ''(Resized as '' @
                    toUpperCase (template_str (second_piece (split_on (CHR ''/'') mimeType))) @ '')''\<rparr>,
                [ToBlob (prepare_canvas img isPng) mimeType,
                 ToDataURL (prepare_canvas img isPng) mimeType None])"
proof -
  from split_on_second [OF assms(3)] obtain e where
    "second_piece (split_on (CHR ''/'') mimeType) = Some e" by blast
  with assms(1,2) show ?thesis
    by (simp add: compressImage_def format_label_def template_str_def Let_def)
qed

theorem other_formats_encode_twice_at_defaults_without_budget_witness:
  "''image/bmp'' \<noteq> ''image/jpeg'' \<and> ''image/bmp'' \<noteq> ''image/webp''
   \<and> CHR ''/'' \<in> set ''image/bmp''
   \<and> compressImage demo_browser demo_image ''image/bmp'' 50 False =
        Inr (\<lparr>res_blob = toBlob demo_browser (prepare_canvas demo_image False) ''image/bmp'',
              res_src = toDataURL demo_browser (prepare_canvas demo_image False) ''image/bmp'' None,
              res_quality = None,
              res_format = ''(Resized as BMP)''\<rparr>,
             [ToBlob (prepare_canvas demo_image False) ''image/bmp'',
              ToDataURL (prepare_canvas demo_image False) ''image/bmp'' None])"
  using other_formats_encode_twice_at_defaults_without_budget
          [of "''image/bmp''" demo_browser demo_image 50 False]
  by (simp add: template_str_def second_piece_def toUpperCase_def upper_char_def)

text \<open>
  Claim C6 speaks of exactly one encoder call; for a BMP the routine makes two.
\<close>

theorem other_formats_two_encoder_calls:
  "snd (projr (compressImage demo_browser demo_image ''image/bmp'' 50 False)) =
     [ToBlob (prepare_canvas demo_image False) ''image/bmp'',
      ToDataURL (prepare_canvas demo_image False) ''image/bmp'' None]
   \<and> length (snd (projr (compressImage demo_browser demo_image ''image/bmp'' 50 False))) \<noteq> 1"
  by (simp add: compressImage_def format_label_def second_piece_def Let_def)


lemma fallback_calls:
  "fallback env cv m s = Inr s' \<Longrightarrow>
   calls s' = calls s \<or> calls s' = calls s @ [ToDataURL cv m (Some (1 / 10))]"
  by (auto simp: fallback_def Let_def split: option.splits sum.splits)

lemma compressImage_calls:
  assumes "compressImage env img m t flag = Inr (r, made)"
  shows "\<forall>c \<in> set made. call_canvas c = prepare_canvas img flag \<and> call_mime c = m"
proof (cases "m = ''image/jpeg'' \<or> m = ''image/webp''")
  case False
  with assms show ?thesis
    by (auto simp: compressImage_def Let_def split: sum.splits)
next
  case True
  let ?cv = "prepare_canvas img flag"
  from assms obtain s s' where lp: "search_loop env ?cv m t 0 initial_search = Inr s"
    and fb: "fallback env ?cv m s = Inr s'" and made: "made = calls s'"
    by (auto simp: compressImage_search [OF True] split: sum.splits)
  have "search_inv env ?cv m t s"
    using search_inv_initial lp by (rule search_inv_loop)
  then have "\<forall>c \<in> set (calls s). \<exists>q. c = ToDataURL ?cv m (Some q)"
    by (simp add: search_inv_def)
  then have shape: "\<And>c. c \<in> set (calls s) \<Longrightarrow> \<exists>q. c = ToDataURL ?cv m (Some q)"
    by blast
  show ?thesis
  proof
    fix c assume "c \<in> set made"
    then have "c \<in> set (calls s) \<or> c = ToDataURL ?cv m (Some (1 / 10))"
      using fallback_calls [OF fb] made by auto
    then obtain q where "c = ToDataURL ?cv m (Some q)" using shape by blast
    then show "call_canvas c = ?cv \<and> call_mime c = m" by simp
  qed
qed

text \<open>
  Claim C4. A PNG file is compressed as JPEG on a canvas that is first filled with opaque
  white and then drawn on; any other file is compressed in its own type on a canvas that is
  only drawn on; in both cases the budget passed on is the file size times 0.10. Every
  encoder call of the run is made on that canvas with that type.
\<close>

theorem png_is_flattened_to_jpeg_others_keep_their_type:
  "processImage_compress env file img =
     compressImage env img
       (if file_type file = ''image/png'' then ''image/jpeg'' else file_type file)
       (of_nat (file_size file) * (1 / 10))
       (file_type file = ''image/png'')
   \<and> canvas_ops (prepare_canvas img (file_type file = ''image/png'')) =
       (if file_type file = ''image/png''
        then [FillRect ''#FFFFFF'' 0 0
                (width (resizeDimensions (of_nat (img_width img)) (of_nat (img_height img)) 1920))
                (height (resizeDimensions (of_nat (img_width img)) (of_nat (img_height img)) 1920))]
        else []) @
       [DrawImage img 0 0
          (width (resizeDimensions (of_nat (img_width img)) (of_nat (img_height img)) 1920))
          (height (resizeDimensions (of_nat (img_width img)) (of_nat (img_height img)) 1920))]
   \<and> (\<forall>r made. processImage_compress env file img = Inr (r, made) \<longrightarrow>
         (\<forall>c \<in> set made.
            call_canvas c = prepare_canvas img (file_type file = ''image/png'')
            \<and> call_mime c = (if file_type file = ''image/png'' then ''image/jpeg'' else file_type file)))"
proof -
  have eq: "processImage_compress env file img =
     compressImage env img
       (if file_type file = ''image/png'' then ''image/jpeg'' else file_type file)
       (of_nat (file_size file) * (1 / 10))
       (file_type file = ''image/png'')"
    by (simp add: processImage_compress_def Let_def)
  moreover have "canvas_ops (prepare_canvas img (file_type file = ''image/png'')) =
       (if file_type file = ''image/png''
        then [FillRect ''#FFFFFF'' 0 0
                (width (resizeDimensions (of_nat (img_width img)) (of_nat (img_height img)) 1920))
                (height (resizeDimensions (of_nat (img_width img)) (of_nat (img_height img)) 1920))]
        else []) @
       [DrawImage img 0 0
          (width (resizeDimensions (of_nat (img_width img)) (of_nat (img_height img)) 1920))
          (height (resizeDimensions (of_nat (img_width img)) (of_nat (img_height img)) 1920))]"
    by (simp add: prepare_canvas_def MAX_DIMENSION_def Let_def)
  moreover have "\<forall>r made. processImage_compress env file img = Inr (r, made) \<longrightarrow>
         (\<forall>c \<in> set made.
            call_canvas c = prepare_canvas img (file_type file = ''image/png'')
            \<and> call_mime c = (if file_type file = ''image/png'' then ''image/jpeg'' else file_type file))"
    unfolding eq using compressImage_calls by blast
  ultimately show ?thesis by blast
qed

lemma demo_quarter_url:
  "toDataURL demo_browser cv ''image/jpeg'' (Some (1 / 4)) = ''data:image/jpeg;base64,AAAA''"
  by (simp add: demo_browser_def demo_payload_def)

lemma replicate_three: "replicate 3 (0::nat) = [0, 0, 0]"
  by (simp add: numeral_3_eq_3)

lemma demo_compress_photo:
  "compressImage demo_browser demo_image ''image/jpeg'' 10 True =
     Inr (\<lparr>res_blob = Some \<lparr>blob_data = [0, 0, 0], blob_type = ''image/jpeg''\<rparr>,
           res_src = ''data:image/jpeg;base64,AAAA'',
           res_quality = Some (1 / 4),
           res_format = ''(as JPEG)''\<rparr>,
          map (\<lambda>q. ToDataURL (prepare_canvas demo_image True) ''image/jpeg'' (Some q))
            [1 / 2, 1 / 4, 3 / 8, 5 / 16, 9 / 32, 17 / 64, 33 / 128])"
  by (simp add: compressImage_search demo_loop fallback_def demo_quarter_url replicate_three)

theorem png_is_flattened_to_jpeg_others_keep_their_type_witness:
  "processImage_compress demo_browser photo_png demo_image =
     compressImage demo_browser demo_image ''image/jpeg'' 10 True
   \<and> canvas_ops (prepare_canvas demo_image True) =
       [FillRect ''#FFFFFF'' 0 0 1920 1280, DrawImage demo_image 0 0 1920 1280]
   \<and> (\<exists>r made. processImage_compress demo_browser photo_png demo_image = Inr (r, made)
         \<and> length made = 7
         \<and> (\<forall>c \<in> set made.
              call_canvas c = prepare_canvas demo_image True \<and> call_mime c = ''image/jpeg''))"
proof -
  have ty: "file_type photo_png = ''image/png''" and sz: "file_size photo_png = 100"
    by (simp_all add: photo_png_def)
  have dims: "resizeDimensions (of_nat (img_width demo_image)) (of_nat (img_height demo_image)) 1920
                = \<lparr>width = 1920, height = 1280\<rparr>"
    by (simp add: demo_image_def resize_photo)
  show ?thesis
    using png_is_flattened_to_jpeg_others_keep_their_type [of demo_browser photo_png demo_image]
    by (simp add: ty sz dims demo_compress_photo)
qed

subsection \<open>The page and its batch\<close>

lemma changeFileExtension_undefined: "changeFileExtension name None = Inl TypeError"
  by (simp add: changeFileExtension_def)

lemma changeFileExtension_string: "\<exists>n. changeFileExtension name (Some m) = Inr n"
  by (simp add: changeFileExtension_def Let_def)

lemma displayPreviewCard_frame:
  "displayPreviewCard f src r st = Inr st1 \<Longrightarrow>
   compressedFilesForZip st1 = compressedFilesForZip st
   \<and> filesToProcess st1 = filesToProcess st
   \<and> filesProcessed st1 = filesProcessed st
   \<and> downloadAllBtn_display st1 = downloadAllBtn_display st"
  by (auto simp: displayPreviewCard_def split: option.splits sum.splits)

text \<open>
  No pipeline reaches the push or \<open>checkCompletion\<close>: with a result in hand, the read of
  \<open>result.mimeType\<close> is \<open>undefined\<close> and \<open>changeFileExtension\<close> raises. So every pipeline
  rejects, and the outcomes, both counters and the button are as it found them.
\<close>

lemma processImage_rejects:
  "\<exists>e. fst (processImage env f st) = Inl e"
  by (auto simp: processImage_def Let_def result_mimeType_def changeFileExtension_undefined
           split: option.splits sum.splits prod.splits)

lemma processImage_frame:
  "compressedFilesForZip (snd (processImage env f st)) = compressedFilesForZip st
   \<and> filesToProcess (snd (processImage env f st)) = filesToProcess st
   \<and> filesProcessed (snd (processImage env f st)) = filesProcessed st
   \<and> downloadAllBtn_display (snd (processImage env f st)) = downloadAllBtn_display st"
  by (auto simp: processImage_def Let_def result_mimeType_def changeFileExtension_undefined
           dest: displayPreviewCard_frame
           split: option.splits sum.splits prod.splits)

lemma processImage_failing:
  assumes "decode_or_encode_fails env f"
  shows "\<exists>e. processImage env f st = (Inl e, st)"
  using assms
  by (auto simp: decode_or_encode_fails_def processImage_def displayPreviewCard_def Let_def
           split: option.splits sum.splits prod.splits)

lemma settle_all_append:
  "settle_all env (xs @ ys) st = settle_all env ys (settle_all env xs st)"
  by (simp add: settle_all_def)

lemma settle_all_Cons:
  "settle_all env (f # fs) st = settle_all env fs (snd (processImage env f st))"
  by (simp add: settle_all_def)

text \<open>
  Claim C7, as the code has it. A pipeline that fails in decoding or encoding rejects and
  leaves the page exactly as it found it: no outcome is added, \<open>filesToProcess\<close> is not
  changed, and \<open>filesProcessed\<close> does not advance. The other pipelines of the batch settle
  as if the failing one had not been started.
\<close>

theorem failed_pipeline_leaves_page_untouched:
  assumes "decode_or_encode_fails env f"
  shows "(\<exists>e. processImage env f st = (Inl e, st))
       \<and> settle_all env (before @ f # after) st0 = settle_all env (before @ after) st0"
proof -
  from processImage_failing [OF assms]
  have "snd (processImage env f (settle_all env before st0)) = settle_all env before st0"
    by (metis snd_conv)
  then have "settle_all env (before @ f # after) st0 = settle_all env (before @ after) st0"
    by (simp add: settle_all_append settle_all_Cons)
  with processImage_failing [OF assms] show ?thesis by blast
qed

lemma demo_decode_broken: "decode demo_browser broken_jpg = None"
  by (simp add: demo_browser_def broken_jpg_def)

lemma demo_decode_photo: "decode demo_browser photo_png = Some (3000, 2000)"
  by (simp add: demo_browser_def photo_png_def)

lemma demo_object_url: "createObjectURL demo_browser photo_png = ''blob:photo.png''"
  by (simp add: demo_browser_def photo_png_def)

lemma broken_fails: "decode_or_encode_fails demo_browser broken_jpg"
  by (simp add: decode_or_encode_fails_def demo_decode_broken)

theorem failed_pipeline_leaves_page_untouched_witness:
  "decode_or_encode_fails demo_browser broken_jpg
   \<and> (\<exists>e. processImage demo_browser broken_jpg after_photo = (Inl e, after_photo))
   \<and> settle_all demo_browser [photo_png, broken_jpg, photo_png] fresh_page
       = settle_all demo_browser [photo_png, photo_png] fresh_page"
  using failed_pipeline_leaves_page_untouched
          [OF broken_fails, of after_photo "[photo_png]" "[photo_png]" fresh_page] broken_fails
  by simp

text \<open>
  Claim C7 has the completed count advance for a failed image; for an image that does not
  decode it stays where it was.
\<close>

theorem failed_pipeline_is_not_counted:
  "decode_or_encode_fails demo_browser broken_jpg
   \<and> filesProcessed (fst (imageInput_change (Some [broken_jpg]) fresh_page)) = 0
   \<and> filesProcessed (snd (processImage demo_browser broken_jpg
                            (fst (imageInput_change (Some [broken_jpg]) fresh_page)))) \<noteq> 0 + 1"
  by (simp add: broken_fails imageInput_change_def processImage_def Let_def demo_decode_broken
                fresh_page_def)



text \<open>
  Claim C9, as the code has it. A non-empty selection without any image file starts no
  pipeline, but the reset has run before the files are filtered: the preview container and
  the outcomes are emptied, both counters are set to zero and the button is hidden. Only an
  empty or missing selection leaves the page unchanged.
\<close>

theorem selection_without_images_resets_page:
  "(fs \<noteq> [] \<and> filter (\<lambda>f. startsWith (file_type f) ''image/'') fs = [] \<longrightarrow>
      imageInput_change (Some fs) st =
        (\<lparr>previewsContainer = [], compressedFilesForZip = [], filesToProcess = 0,
          filesProcessed = 0, downloadAllBtn_display = ''none''\<rparr>, []))
   \<and> imageInput_change (Some []) st = (st, [])
   \<and> imageInput_change None st = (st, [])"
  by (simp add: imageInput_change_def Let_def)

theorem selection_without_images_resets_page_witness:
  "[notes_txt] \<noteq> [] \<and> filter (\<lambda>f. startsWith (file_type f) ''image/'') [notes_txt] = []
   \<and> imageInput_change (Some [notes_txt]) after_photo =
        (\<lparr>previewsContainer = [], compressedFilesForZip = [], filesToProcess = 0,
          filesProcessed = 0, downloadAllBtn_display = ''none''\<rparr>, [])
   \<and> imageInput_change (Some []) after_photo = (after_photo, [])
   \<and> imageInput_change None after_photo = (after_photo, [])"
  using selection_without_images_resets_page [of "[notes_txt]" after_photo]
  by (simp add: notes_txt_def startsWith_def)

lemma after_photo_reached:
  "snd (processImage demo_browser photo_png (fst (imageInput_change (Some [photo_png]) fresh_page)))
     = after_photo"
proof -
  have sel: "fst (imageInput_change (Some [photo_png]) fresh_page) =
               \<lparr>previewsContainer = [], compressedFilesForZip = [], filesToProcess = 1,
                filesProcessed = 0, downloadAllBtn_display = ''none''\<rparr>"
    by (simp add: imageInput_change_def Let_def photo_png_def fresh_page_def startsWith_def)
  have cmp: "processImage_compress demo_browser photo_png
               \<lparr>img_src = ''blob:photo.png'', img_width = 3000, img_height = 2000\<rparr> =
             Inr (\<lparr>res_blob = Some \<lparr>blob_data = [0, 0, 0], blob_type = ''image/jpeg''\<rparr>,
                   res_src = ''data:image/jpeg;base64,AAAA'',
                   res_quality = Some (1 / 4),
                   res_format = ''(as JPEG)''\<rparr>,
                  map (\<lambda>q. ToDataURL (prepare_canvas demo_image True) ''image/jpeg'' (Some q))
                    [1 / 2, 1 / 4, 3 / 8, 5 / 16, 9 / 32, 17 / 64, 33 / 128])"
    using demo_compress_photo
    by (simp add: processImage_compress_def photo_png_def demo_image_def)
  have nm: "file_name photo_png = ''photo.png''" and sz: "file_size photo_png = 100"
    by (simp_all add: photo_png_def)
  have dl: "changeFileExtension ''photo.png'' (Some ''image/jpeg'') = Inr ''photo.jpeg''"
    by (simp add: changeFileExtension_def second_piece_def template_str_def substring_def
                  lastIndexOf_def)
  show ?thesis
    unfolding sel processImage_def demo_decode_photo demo_object_url
    by (simp add: cmp displayPreviewCard_def nm sz dl blob_size_def result_mimeType_def
                  changeFileExtension_undefined after_photo_def)
qed

text \<open>
  Claim C9 has such a selection change nothing; after a processed photo it clears the
  preview container and resets the expected count.
\<close>

theorem selection_without_images_changes_page:
  "previewsContainer (fst (imageInput_change (Some [notes_txt]) after_photo))
     \<noteq> previewsContainer after_photo
   \<and> filesToProcess (fst (imageInput_change (Some [notes_txt]) after_photo))
     \<noteq> filesToProcess after_photo"
  by (simp add: imageInput_change_def Let_def notes_txt_def startsWith_def after_photo_def)

end
